theory Spec2Isabelle
  imports Complex_Main "HOL-Library.Word"
begin

section \<open>The voxel cone tracer object (src/gi/voxelconetracer.js)\<close>

text \<open>
  A texel channel is one element of a \<^verbatim>\<open>Uint8Array\<close>.  A 2D-array capture texture is
  addressed by its layer and by the byte offset that \<^verbatim>\<open>gl.readPixels\<close> gives a channel
  inside the layer (RGBA, row after row).  The object keeps the resolution, the three
  axis captures and the 3D volume; the constructor stores no scene scale.
\<close>

type_synonym byte = "8 word"

type_synonym texture2DArray = "nat \<Rightarrow> nat \<Rightarrow> byte"

record voxelConeTracer =
  voxelTextureSize :: nat
  xTexture :: texture2DArray
  yTexture :: texture2DArray
  zTexture :: texture2DArray
  voxelTexture :: "byte list"

text \<open>
  \<^verbatim>\<open>constructor(sceneScale, cubeSize, resolution, ...)\<close>: only \<^verbatim>\<open>resolution\<close> is
  kept (as \<^verbatim>\<open>voxelTextureSize\<close>); the four textures are allocated with a null source,
  which WebGL zero-fills.  The arguments \<^verbatim>\<open>sceneScale\<close> and \<^verbatim>\<open>cubeSize\<close> reach no
  field that voxelize reads.
\<close>

definition constructor :: "real \<Rightarrow> real \<Rightarrow> nat \<Rightarrow> voxelConeTracer" where
  "constructor sceneScale cubeSize resolution =
     \<lparr> voxelTextureSize = resolution,
       xTexture = (\<lambda>layer offset. 0),
       yTexture = (\<lambda>layer offset. 0),
       zTexture = (\<lambda>layer offset. 0),
       voxelTexture = replicate (resolution * resolution * resolution * 4) 0 \<rparr>"

subsection \<open>Typed-array access\<close>

text \<open>
  Reading a \<^verbatim>\<open>Uint8Array\<close> past its end gives \<^verbatim>\<open>undefined\<close>, which compares as not
  greater than 0 and is stored as 0; writing outside the array is ignored.
\<close>

definition load :: "byte list \<Rightarrow> nat \<Rightarrow> byte" where
  "load a j = (if j < length a then a ! j else 0)"

definition store :: "byte list \<Rightarrow> int \<Rightarrow> byte \<Rightarrow> byte list" where
  "store a idx v = (if 0 \<le> idx \<and> idx < int (length a) then a[nat idx := v] else a)"

text \<open>\<^verbatim>\<open>gl.readPixels\<close> of layer \<open>i\<close> into a fresh slice of \<open>vSize * vSize * 4\<close> bytes.\<close>

definition readPixels :: "nat \<Rightarrow> texture2DArray \<Rightarrow> nat \<Rightarrow> byte list" where
  "readPixels vSize tex i = map (tex i) [0..<vSize * vSize * 4]"

subsection \<open>The X pass of the merge\<close>

text \<open>The row counter is bumped when \<^verbatim>\<open>k > 0 && k % vSize === 0\<close>.\<close>

definition xRowCount :: "nat \<Rightarrow> nat \<Rightarrow> nat \<Rightarrow> nat" where
  "xRowCount vSize k rowCount = (if k > 0 \<and> k mod vSize = 0 then rowCount + 1 else rowCount)"

text \<open>The flat voxel index of the X pass, as the source computes it (JavaScript numbers).\<close>

definition xValue :: "nat \<Rightarrow> nat \<Rightarrow> nat \<Rightarrow> nat \<Rightarrow> int" where
  "xValue vSize i k rowCount =
     0 + (int vSize - 1) + int k * int vSize * int vSize - int i
       - (int vSize * int vSize * int vSize * int rowCount - int vSize * int rowCount)"

text \<open>One iteration of the inner loop; the loop state is \<open>(j, rowCount, data)\<close>.\<close>

definition xStep ::
  "nat \<Rightarrow> byte list \<Rightarrow> nat \<Rightarrow> nat \<Rightarrow> nat \<times> nat \<times> byte list \<Rightarrow> nat \<times> nat \<times> byte list" where
  "xStep vSize sliceBuf i k st =
     (case st of (j, rowCount, data) \<Rightarrow>
        let rowCount' = xRowCount vSize k rowCount;
            data1 = store data (xValue vSize i k rowCount' * 4 + 0) (load sliceBuf j);
            data2 = store data1 (xValue vSize i k rowCount' * 4 + 1) (load sliceBuf (j + 1));
            data3 = store data2 (xValue vSize i k rowCount' * 4 + 2) (load sliceBuf (j + 2));
            data4 = store data3 (xValue vSize i k rowCount' * 4 + 3) (load sliceBuf (j + 3))
        in (j + 4, rowCount', data4))"

definition xSlice :: "nat \<Rightarrow> texture2DArray \<Rightarrow> nat \<Rightarrow> byte list \<Rightarrow> byte list" where
  "xSlice vSize tex i data =
     snd (snd (fold (xStep vSize (readPixels vSize tex i) i) [0..<vSize * vSize] (0, 0, data)))"

definition xPass :: "nat \<Rightarrow> texture2DArray \<Rightarrow> byte list \<Rightarrow> byte list" where
  "xPass vSize tex data = fold (xSlice vSize tex) [0..<vSize] data"

subsection \<open>The Y pass of the merge\<close>

text \<open>At a row start the column counter \<^verbatim>\<open>it\<close> is reset and the row counter bumped.\<close>

definition yCounters :: "nat \<Rightarrow> nat \<Rightarrow> nat \<times> nat \<Rightarrow> nat \<times> nat" where
  "yCounters vSize k c =
     (case c of (it, rowCount) \<Rightarrow>
        if k > 0 \<and> k mod vSize = 0 then (0, rowCount + 1) else (it, rowCount))"

definition yValue :: "nat \<Rightarrow> nat \<Rightarrow> nat \<Rightarrow> nat \<Rightarrow> int" where
  "yValue vSize i rowCount it =
     int i * int vSize + int vSize * int vSize * int rowCount + int vSize - int it - 1"

text \<open>A channel is written only when the capture's channel is greater than 0.\<close>

definition storeIfPositive :: "byte list \<Rightarrow> int \<Rightarrow> byte \<Rightarrow> byte list" where
  "storeIfPositive a idx v = (if v > 0 then store a idx v else a)"

text \<open>One iteration of the inner loop; the loop state is \<open>(j, it, rowCount, data)\<close>.\<close>

definition yStep ::
  "nat \<Rightarrow> byte list \<Rightarrow> nat \<Rightarrow> nat \<Rightarrow> nat \<times> nat \<times> nat \<times> byte list
     \<Rightarrow> nat \<times> nat \<times> nat \<times> byte list" where
  "yStep vSize sliceBuf i k st =
     (case st of (j, it, rowCount, data) \<Rightarrow>
        (case yCounters vSize k (it, rowCount) of (it', rowCount') \<Rightarrow>
           let data1 = storeIfPositive data (yValue vSize i rowCount' it' * 4 + 0) (load sliceBuf (j + 0));
               data2 = storeIfPositive data1 (yValue vSize i rowCount' it' * 4 + 1) (load sliceBuf (j + 1));
               data3 = storeIfPositive data2 (yValue vSize i rowCount' it' * 4 + 2) (load sliceBuf (j + 2));
               data4 = storeIfPositive data3 (yValue vSize i rowCount' it' * 4 + 3) (load sliceBuf (j + 3))
           in (j + 4, it' + 1, rowCount', data4)))"

definition ySlice :: "nat \<Rightarrow> texture2DArray \<Rightarrow> nat \<Rightarrow> byte list \<Rightarrow> byte list" where
  "ySlice vSize tex i data =
     snd (snd (snd (fold (yStep vSize (readPixels vSize tex i) i) [0..<vSize * vSize] (0, 0, 0, data))))"

definition yPass :: "nat \<Rightarrow> texture2DArray \<Rightarrow> byte list \<Rightarrow> byte list" where
  "yPass vSize tex data = fold (ySlice vSize tex) [0..<vSize] data"

subsection \<open>The Z pass of the merge\<close>

text \<open>The Z pass copies byte by byte: slice byte \<open>j\<close> of layer \<open>i\<close> goes to this byte.\<close>

definition zByteIndex :: "nat \<Rightarrow> nat \<Rightarrow> nat \<Rightarrow> int" where
  "zByteIndex vSize i j = int vSize * int vSize * int i * 4 + int j"

definition zStep :: "nat \<Rightarrow> byte list \<Rightarrow> nat \<Rightarrow> nat \<Rightarrow> byte list \<Rightarrow> byte list" where
  "zStep vSize sliceBuf i j data = storeIfPositive data (zByteIndex vSize i j) (load sliceBuf j)"

definition zSlice :: "nat \<Rightarrow> texture2DArray \<Rightarrow> nat \<Rightarrow> byte list \<Rightarrow> byte list" where
  "zSlice vSize tex i data =
     fold (zStep vSize (readPixels vSize tex i) i) [0..<vSize * vSize * 4] data"

definition zPass :: "nat \<Rightarrow> texture2DArray \<Rightarrow> byte list \<Rightarrow> byte list" where
  "zPass vSize tex data = fold (zSlice vSize tex) [0..<vSize] data"

subsection \<open>The merge step\<close>

text \<open>
  The accumulation buffer is a new zero-filled \<^verbatim>\<open>Uint8Array\<close>; the three passes run in
  the order X, Y, Z; \<^verbatim>\<open>gl.texImage3D\<close> then replaces level 0 of the volume texture.
\<close>

definition mergeData :: "nat \<Rightarrow> texture2DArray \<Rightarrow> texture2DArray \<Rightarrow> texture2DArray \<Rightarrow> byte list" where
  "mergeData vSize xTex yTex zTex =
     zPass vSize zTex (yPass vSize yTex (xPass vSize xTex
       (replicate (vSize * vSize * vSize * 4) 0)))"

definition mergeStep :: "voxelConeTracer \<Rightarrow> voxelConeTracer" where
  "mergeStep this =
     this\<lparr> voxelTexture :=
       mergeData (voxelTextureSize this) (xTexture this) (yTexture this) (zTexture this) \<rparr>"

text \<open>
  The counters at the moment iteration \<open>k\<close> computes its index: the loop's own counter
  updates run from iteration 0 to iteration \<open>k\<close>.
\<close>

definition xRowCountAt :: "nat \<Rightarrow> nat \<Rightarrow> nat" where
  "xRowCountAt vSize k = fold (xRowCount vSize) [0..<Suc k] 0"

definition yCountersAt :: "nat \<Rightarrow> nat \<Rightarrow> nat \<times> nat" where
  "yCountersAt vSize k =
     yCounters vSize k (fold (\<lambda>k' c. case yCounters vSize k' c of (it, rowCount) \<Rightarrow> (it + 1, rowCount))
       [0..<k] (0, 0))"

text \<open>The flat voxel index that slice \<open>i\<close>, pixel \<open>k\<close> is written to, per axis.\<close>

definition xFlat :: "nat \<Rightarrow> nat \<Rightarrow> nat \<Rightarrow> int" where
  "xFlat vSize i k = xValue vSize i k (xRowCountAt vSize k)"

definition yFlat :: "nat \<Rightarrow> nat \<Rightarrow> nat \<Rightarrow> int" where
  "yFlat vSize i k = (case yCountersAt vSize k of (it, rowCount) \<Rightarrow> yValue vSize i rowCount it)"

subsection \<open>The slice cameras of voxelize\<close>

text \<open>
  \<^verbatim>\<open>new OrthographicCamera(-sceneScale, sceneScale, -sceneScale, sceneScale, near, far)\<close>:
  the six constructor arguments, in the order of the call.  The three render loops (Y,
  Z, X) build the camera of slice \<open>i\<close> from the same six expressions, where
  \<^verbatim>\<open>sceneScale\<close> is the local \<^verbatim>\<open>const sceneScale = 3000\<close> of voxelize.
\<close>

record orthographicCamera =
  left :: real
  right :: real
  bottom :: real
  top :: real
  near :: real
  far :: real

definition sliceCamera :: "voxelConeTracer \<Rightarrow> nat \<Rightarrow> orthographicCamera" where
  "sliceCamera this i =
     (let sceneScale = 3000 in
      \<lparr> left = - sceneScale,
        right = sceneScale,
        bottom = - sceneScale,
        top = sceneScale,
        near = sceneScale - (real i / real (voxelTextureSize this)) * sceneScale * 2,
        far = sceneScale - ((real i + 1) / real (voxelTextureSize this)) * sceneScale * 2 \<rparr>)"

section \<open>The cone tracer fragment shader (src/materials/conetracershader.js)\<close>

text \<open>
  GLSL floats are modelled as real numbers: the arithmetic is exact, rounding is left
  out.  A \<^verbatim>\<open>vec3\<close> is a triple, a \<^verbatim>\<open>vec4\<close> is its \<^verbatim>\<open>rgb\<close> part with its \<^verbatim>\<open>a\<close> part.
\<close>

type_synonym vec3 = "real \<times> real \<times> real"

type_synonym vec4 = "vec3 \<times> real"

definition vec4_rgb :: "vec4 \<Rightarrow> vec3" where
  "vec4_rgb v = fst v"

definition vec4_a :: "vec4 \<Rightarrow> real" where
  "vec4_a v = snd v"

definition vadd :: "vec3 \<Rightarrow> vec3 \<Rightarrow> vec3" where
  "vadd p q = (case p of (px, py, pz) \<Rightarrow> case q of (qx, qy, qz) \<Rightarrow> (px + qx, py + qy, pz + qz))"

definition smul :: "real \<Rightarrow> vec3 \<Rightarrow> vec3" where
  "smul s p = (case p of (px, py, pz) \<Rightarrow> (s * px, s * py, s * pz))"

definition sdiv :: "vec3 \<Rightarrow> real \<Rightarrow> vec3" where
  "sdiv p s = (case p of (px, py, pz) \<Rightarrow> (px / s, py / s, pz / s))"

definition scaleAndBias :: "vec3 \<Rightarrow> vec3" where
  "scaleAndBias p = vadd (smul 0.5 p) (0.5, 0.5, 0.5)"

text \<open>
  What a call of \<^verbatim>\<open>coneTrace\<close> reads besides its arguments: the fragment's inputs, the
  uniforms, the global \<^verbatim>\<open>voxelWorldSize\<close> (set by \<^verbatim>\<open>main\<close> before any trace), and the
  volume sampler \<^verbatim>\<open>textureLod(voxelTexture, coordinate, mip)\<close>.
\<close>

record shaderInputs =
  position_world :: vec3
  normal_world :: vec3
  sceneScale :: real
  voxelConeStepSize :: real
  voxelWorldSize :: real
  textureLod :: "vec3 \<Rightarrow> real \<Rightarrow> vec4"

text \<open>The local variables that the march loop updates.\<close>

record coneState =
  color :: vec3
  alpha :: real
  occlusion :: real
  dist' :: real

text \<open>The sample footprint and the mip level of a step at distance \<open>d\<close>.\<close>

definition diameter :: "real \<Rightarrow> real \<Rightarrow> real \<Rightarrow> real" where
  "diameter vws tanHalfAngle d = max vws (2 * tanHalfAngle * d)"

definition mip :: "real \<Rightarrow> real \<Rightarrow> real \<Rightarrow> real" where
  "mip vws tanHalfAngle d = log 2 (diameter vws tanHalfAngle d / vws)"

text \<open>The body of the while loop, up to the test of \<^verbatim>\<open>alpha > 0.95\<close>.\<close>

definition coneStep :: "shaderInputs \<Rightarrow> vec3 \<Rightarrow> real \<Rightarrow> vec3 \<Rightarrow> coneState \<Rightarrow> coneState" where
  "coneStep env direction tanHalfAngle startPos s =
     (let worldPosition = vadd startPos (smul (dist' s) direction);
          voxelColor = textureLod env (scaleAndBias (sdiv worldPosition (sceneScale env)))
                         (mip (voxelWorldSize env) tanHalfAngle (dist' s));
          a = 1 - alpha s;
          color1 = vadd (color s) (smul a (vec4_rgb voxelColor));
          alpha1 = alpha s + a * vec4_a voxelColor;
          color2 = vadd color1 (vec4_rgb voxelColor);
          occlusion1 = occlusion s + a * vec4_a voxelColor;
          dist1 = dist' s + diameter (voxelWorldSize env) tanHalfAngle (dist' s) * voxelConeStepSize env
      in \<lparr> color = color2, alpha = alpha1, occlusion = occlusion1, dist' = dist1 \<rparr>)"

text \<open>
  The while loop.  It need not end (a step size of 0 never advances), so the model
  counts loop bodies: \<open>coneLoop n\<close> is \<open>None\<close> exactly when the loop wants to run more
  than \<open>n\<close> bodies, and otherwise the state at the loop's exit.
\<close>

fun coneLoop ::
  "nat \<Rightarrow> shaderInputs \<Rightarrow> vec3 \<Rightarrow> real \<Rightarrow> vec3 \<Rightarrow> coneState \<Rightarrow> coneState option" where
  "coneLoop 0 env direction tanHalfAngle startPos s =
     (if dist' s < 50 * voxelWorldSize env then None else Some s)"
| "coneLoop (Suc n) env direction tanHalfAngle startPos s =
     (if dist' s < 50 * voxelWorldSize env then
        (let s' = coneStep env direction tanHalfAngle startPos s
         in if alpha s' > 0.95 then Some s' else coneLoop n env direction tanHalfAngle startPos s')
      else Some s)"

text \<open>The state at the loop's entry, and the whole function with its out-parameter.\<close>

definition coneInit :: "shaderInputs \<Rightarrow> coneState" where
  "coneInit env = \<lparr> color = (0, 0, 0), alpha = 0, occlusion = 0, dist' = voxelWorldSize env \<rparr>"

definition coneStart :: "shaderInputs \<Rightarrow> vec3" where
  "coneStart env = vadd (position_world env) (smul (voxelWorldSize env) (normal_world env))"

definition coneTrace :: "nat \<Rightarrow> shaderInputs \<Rightarrow> vec3 \<Rightarrow> real \<Rightarrow> (vec4 \<times> real) option" where
  "coneTrace n env direction tanHalfAngle =
     (case coneLoop n env direction tanHalfAngle (coneStart env) (coneInit env) of
        None \<Rightarrow> None
      | Some s \<Rightarrow> Some ((color s, alpha s), occlusion s))"

section \<open>Further notions used in the statements\<close>

text \<open>
  The Z pass has no voxel index of its own: the four bytes of pixel \<open>k\<close> of slice \<open>i\<close>
  start at byte \<open>zByteIndex vSize i (4 * k)\<close>, which is four times this voxel index.
\<close>

definition zFlat :: "nat \<Rightarrow> nat \<Rightarrow> nat \<Rightarrow> int" where
  "zFlat vSize i k = zByteIndex vSize i (4 * k) div 4"

text \<open>
  A test scene for the shader: a voxel of world size 1 and a volume that returns the
  colour \<open>(1, 1, 1)\<close> with the same alpha at every coordinate and mip level.
\<close>

definition uniformVolume :: "real \<Rightarrow> real \<Rightarrow> shaderInputs" where
  "uniformVolume stepSize sampleAlpha =
     \<lparr> position_world = (0, 0, 0), normal_world = (0, 1, 0), sceneScale = 3000,
       voxelConeStepSize = stepSize, voxelWorldSize = 1,
       textureLod = (\<lambda>coordinate lod. ((1, 1, 1), sampleAlpha)) \<rparr>"

section \<open>The cone march in rounded arithmetic\<close>

text \<open>
  The shader computes in \<^verbatim>\<open>highp float\<close>, where a sum or a product is rounded.  An
  \<open>arithmetic\<close> gives the addition, multiplication, division and \<^verbatim>\<open>log2\<close> of the
  GPU; comparison, \<^verbatim>\<open>max\<close> and negation are exact in floating point, and a
  subtraction is the addition of the negated operand.
\<close>

record arithmetic =
  fadd :: "real \<Rightarrow> real \<Rightarrow> real"
  fmul :: "real \<Rightarrow> real \<Rightarrow> real"
  fdiv :: "real \<Rightarrow> real \<Rightarrow> real"
  flog2 :: "real \<Rightarrow> real"

text \<open>The arithmetic without rounding.\<close>

definition exactArithmetic :: arithmetic where
  "exactArithmetic = \<lparr> fadd = (+), fmul = (*), fdiv = (/), flog2 = log 2 \<rparr>"

text \<open>
  An arithmetic is accurate to \<open>u\<close> when every sum and every product is within the
  relative error \<open>u\<close> of the exact one; round-to-nearest binary32 is accurate to
  \<open>1 / 2 ^ 24\<close> as long as nothing overflows or underflows.
\<close>

definition accurate :: "real \<Rightarrow> arithmetic \<Rightarrow> bool" where
  "accurate u ar \<longleftrightarrow>
     (\<forall>x y. \<bar>fadd ar x y - (x + y)\<bar> \<le> u * \<bar>x + y\<bar>) \<and>
     (\<forall>x y. \<bar>fmul ar x y - x * y\<bar> \<le> u * \<bar>x * y\<bar>)"

text \<open>
  What is left of the step size \<open>h\<close> when each of the two operations of
  \<^verbatim>\<open>dist + diameter * voxelConeStepSize\<close> loses up to \<open>u\<close> and the distance stays below
  the rounded limit of 50 voxels; without rounding it is \<open>h\<close>.
\<close>

definition effectiveStep :: "real \<Rightarrow> real \<Rightarrow> real" where
  "effectiveStep u h = h * (1 - u) * (1 - u) - 50 * u * (1 + u)"

text \<open>
  The loop body, the loop and the function once more, with every arithmetic operation of
  the source taken from the arithmetic.  \<^verbatim>\<open>maxDistance\<close> is computed once, before the
  loop, and is a product as well.
\<close>

definition fvadd :: "arithmetic \<Rightarrow> vec3 \<Rightarrow> vec3 \<Rightarrow> vec3" where
  "fvadd ar p q =
     (case p of (px, py, pz) \<Rightarrow> case q of (qx, qy, qz) \<Rightarrow>
        (fadd ar px qx, fadd ar py qy, fadd ar pz qz))"

definition fsmul :: "arithmetic \<Rightarrow> real \<Rightarrow> vec3 \<Rightarrow> vec3" where
  "fsmul ar s p = (case p of (px, py, pz) \<Rightarrow> (fmul ar s px, fmul ar s py, fmul ar s pz))"

definition fsdiv :: "arithmetic \<Rightarrow> vec3 \<Rightarrow> real \<Rightarrow> vec3" where
  "fsdiv ar p s = (case p of (px, py, pz) \<Rightarrow> (fdiv ar px s, fdiv ar py s, fdiv ar pz s))"

definition roundedStep ::
  "arithmetic \<Rightarrow> shaderInputs \<Rightarrow> vec3 \<Rightarrow> real \<Rightarrow> vec3 \<Rightarrow> coneState \<Rightarrow> coneState" where
  "roundedStep ar env direction tanHalfAngle startPos s =
     (let diameter = max (voxelWorldSize env) (fmul ar (fmul ar 2 tanHalfAngle) (dist' s));
          mip = flog2 ar (fdiv ar diameter (voxelWorldSize env));
          worldPosition = fvadd ar startPos (fsmul ar (dist' s) direction);
          voxelColor = textureLod env
            (fvadd ar (fsmul ar 0.5 (fsdiv ar worldPosition (sceneScale env))) (0.5, 0.5, 0.5)) mip;
          a = fadd ar 1 (- alpha s);
          color1 = fvadd ar (color s) (fsmul ar a (vec4_rgb voxelColor));
          alpha1 = fadd ar (alpha s) (fmul ar a (vec4_a voxelColor));
          color2 = fvadd ar color1 (vec4_rgb voxelColor);
          occlusion1 = fadd ar (occlusion s) (fmul ar a (vec4_a voxelColor));
          dist1 = fadd ar (dist' s) (fmul ar diameter (voxelConeStepSize env))
      in \<lparr> color = color2, alpha = alpha1, occlusion = occlusion1, dist' = dist1 \<rparr>)"

fun roundedLoop ::
  "arithmetic \<Rightarrow> nat \<Rightarrow> shaderInputs \<Rightarrow> vec3 \<Rightarrow> real \<Rightarrow> vec3 \<Rightarrow> real \<Rightarrow> coneState
     \<Rightarrow> coneState option" where
  "roundedLoop ar 0 env direction tanHalfAngle startPos maxDistance s =
     (if dist' s < maxDistance then None else Some s)"
| "roundedLoop ar (Suc n) env direction tanHalfAngle startPos maxDistance s =
     (if dist' s < maxDistance then
        (let s' = roundedStep ar env direction tanHalfAngle startPos s
         in if alpha s' > 0.95 then Some s'
            else roundedLoop ar n env direction tanHalfAngle startPos maxDistance s')
      else Some s)"

definition roundedTrace ::
  "arithmetic \<Rightarrow> nat \<Rightarrow> shaderInputs \<Rightarrow> vec3 \<Rightarrow> real \<Rightarrow> (vec4 \<times> real) option" where
  "roundedTrace ar n env direction tanHalfAngle =
     (let startPos = fvadd ar (position_world env)
                       (fsmul ar (voxelWorldSize env) (normal_world env));
          maxDistance = fmul ar 50 (voxelWorldSize env)
      in case roundedLoop ar n env direction tanHalfAngle startPos maxDistance (coneInit env) of
           None \<Rightarrow> None
         | Some s \<Rightarrow> Some ((color s, alpha s), occlusion s))"

text \<open>
  A test arithmetic, accurate to \<open>u\<close>: a sum returns its first operand unchanged when
  the second is within \<open>u\<close> of the sum, as binary32 does for an addend below half a
  unit in the last place (\<open>1 + 1 / 2 ^ 30\<close> is 1 there), and is exact otherwise.
\<close>

definition absorbingArithmetic :: "real \<Rightarrow> arithmetic" where
  "absorbingArithmetic u =
     \<lparr> fadd = (\<lambda>x y. if \<bar>y\<bar> \<le> u * \<bar>x + y\<bar> then x else x + y),
       fmul = (*), fdiv = (/), flog2 = log 2 \<rparr>"

section \<open>Auxiliary notions of the proofs\<close>

text \<open>
  A pass of the merge is, in the end, a list of byte updates \<open>(index, value)\<close> applied
  from left to right, where \<open>None\<close> stands for a channel that is skipped.  \<open>xi\<close> and
  \<open>yi\<close> are the voxel indices of the X and the Y pass in digits of base \<open>N\<close>;
  \<open>yPre\<close> is the pair \<open>(it, rowCount)\<close> at the head of an iteration of the Y loop.
\<close>

definition writes :: "(nat \<times> byte option) list \<Rightarrow> byte list \<Rightarrow> byte list" where
  "writes ws d = fold (\<lambda>w d. case snd w of None \<Rightarrow> d | Some b \<Rightarrow> d[fst w := b]) ws d"

definition xi :: "nat \<Rightarrow> nat \<Rightarrow> nat \<Rightarrow> nat" where
  "xi N i k = (N - 1 - i) + N * (k div N + N * (k mod N))"

definition yi :: "nat \<Rightarrow> nat \<Rightarrow> nat \<Rightarrow> nat" where
  "yi N i k = (N - 1 - k mod N) + N * (i + N * (k div N))"

definition xw :: "nat \<Rightarrow> byte list \<Rightarrow> nat \<Rightarrow> nat \<Rightarrow> (nat \<times> byte option) list" where
  "xw N sl i k = map (\<lambda>c. (4 * xi N i k + c, Some (load sl (4 * k + c)))) [0..<4]"

definition yw :: "nat \<Rightarrow> byte list \<Rightarrow> nat \<Rightarrow> nat \<Rightarrow> (nat \<times> byte option) list" where
  "yw N sl i k = map (\<lambda>c. (4 * yi N i k + c,
      if load sl (4 * k + c) > 0 then Some (load sl (4 * k + c)) else None)) [0..<4]"

definition zw :: "nat \<Rightarrow> byte list \<Rightarrow> nat \<Rightarrow> (nat \<times> byte option) list" where
  "zw N sl i = map (\<lambda>j. (N * N * i * 4 + j, if load sl j > 0 then Some (load sl j) else None))
     [0..<N * N * 4]"

definition xAll :: "nat \<Rightarrow> texture2DArray \<Rightarrow> (nat \<times> byte option) list" where
  "xAll N tex = concat (map (\<lambda>i. concat (map (xw N (readPixels N tex i) i) [0..<N * N])) [0..<N])"

definition yAll :: "nat \<Rightarrow> texture2DArray \<Rightarrow> (nat \<times> byte option) list" where
  "yAll N tex = concat (map (\<lambda>i. concat (map (yw N (readPixels N tex i) i) [0..<N * N])) [0..<N])"

definition zAll :: "nat \<Rightarrow> texture2DArray \<Rightarrow> (nat \<times> byte option) list" where
  "zAll N tex = concat (map (\<lambda>i. zw N (readPixels N tex i) i) [0..<N])"

definition yPre :: "nat \<Rightarrow> nat \<Rightarrow> nat \<times> nat" where
  "yPre N k = fold (\<lambda>k' c. case yCounters N k' c of (it, rowCount) \<Rightarrow> (it + 1, rowCount)) [0..<k] (0, 0)"

section \<open>Typed-array writes as a list of updates\<close>

lemma upt_4: "[0..<4] = [0, 1, 2, 3::nat]"
  by code_simp

lemma writes_Nil: "writes [] d = d"
  by (simp add: writes_def)

lemma writes_append: "writes (ws @ ws') d = writes ws' (writes ws d)"
  by (simp add: writes_def)

lemma writes_Cons: "writes (w # ws) d = writes ws (case snd w of None \<Rightarrow> d | Some b \<Rightarrow> d[fst w := b])"
  by (simp add: writes_def)

lemma length_writes: "length (writes ws d) = length d"
  by (induction ws arbitrary: d) (auto simp: writes_Cons writes_Nil split: option.splits)

lemma writes_nth:
  "p < length d \<Longrightarrow> (\<And>w. (p, w) \<in> set ws \<Longrightarrow> w = v) \<Longrightarrow>
   writes ws d ! p = (if (p, v) \<in> set ws then (case v of None \<Rightarrow> d ! p | Some b \<Rightarrow> b) else d ! p)"
proof (induction ws arbitrary: d)
  case Nil
  then show ?case by (simp add: writes_Nil)
next
  case (Cons w ws)
  obtain q u where w: "w = (q, u)" by (cases w)
  let ?d' = "case u of None \<Rightarrow> d | Some b \<Rightarrow> d[q := b]"
  have len: "p < length ?d'" using Cons.prems(1) by (simp split: option.splits)
  have uniq: "\<And>w'. (p, w') \<in> set ws \<Longrightarrow> w' = v" using Cons.prems(2) by simp
  have ih: "writes ws ?d' ! p =
    (if (p, v) \<in> set ws then (case v of None \<Rightarrow> ?d' ! p | Some b \<Rightarrow> b) else ?d' ! p)"
    by (rule Cons.IH [OF len uniq])
  show ?case
  proof (cases "q = p")
    case True
    then have uv: "u = v" using Cons.prems(2) [of u] w by simp
    show ?thesis using True uv ih Cons.prems(1) w
      by (auto simp: writes_Cons split: option.splits)
  next
    case False
    then show ?thesis using ih w
      by (auto simp: writes_Cons split: option.splits)
  qed
qed

lemma fold_writes_concat: "fold (\<lambda>i. writes (f i)) is d = writes (concat (map f is)) d"
  by (induction "is" arbitrary: d) (simp_all add: writes_Nil writes_append)

lemma store_nat: "store d (int p) b = d[p := b]"
  by (simp add: store_def list_update_beyond)

lemma storeIfPositive_nat:
  "storeIfPositive d (int p) b = (case (if b > 0 then Some b else None) of None \<Rightarrow> d | Some b' \<Rightarrow> d[p := b'])"
  by (simp add: storeIfPositive_def store_nat)

lemma load_readPixels: "j < N * N * 4 \<Longrightarrow> load (readPixels N tex i) j = tex i j"
  by (simp add: load_def readPixels_def)

section \<open>Index arithmetic of the merge\<close>

lemma digits_eq:
  fixes a b a' b' N :: nat
  assumes "a < N" "a' < N" "a + N * b = a' + N * b'"
  shows "a = a' \<and> b = b'"
proof -
  have "(a + N * b) mod N = (a' + N * b') mod N" using assms(3) by simp
  then have a: "a = a'" using assms(1,2) by simp
  have "(a + N * b) div N = (a' + N * b') div N" using assms(3) by simp
  then have "b = b'" using assms(1,2) by simp
  with a show ?thesis by simp
qed

lemma digits_less:
  fixes a b N M :: nat
  assumes "a < N" "b < M"
  shows "a + N * b < N * M"
proof -
  have "a + N * b < N + N * b" using assms by simp
  also have "\<dots> = N * Suc b" by simp
  also have "\<dots> \<le> N * M" using assms by (intro mult_le_mono2) simp
  finally show ?thesis .
qed

lemma split_pixel: "(k::nat) < N * N \<Longrightarrow> k div N < N \<and> k mod N < N"
  by (cases "N = 0") (simp_all add: less_mult_imp_div_less)

lemma xi_less: "i < N \<Longrightarrow> k < N * N \<Longrightarrow> xi N i k < N * N * N"
proof -
  assume i: "i < N" and k: "k < N * N"
  have "k div N + N * (k mod N) < N * N" using split_pixel [OF k] by (simp add: digits_less)
  moreover have "N - 1 - i < N" using i by simp
  ultimately have "(N - 1 - i) + N * (k div N + N * (k mod N)) < N * (N * N)"
    by (rule digits_less [rotated])
  then show ?thesis by (simp add: xi_def mult.assoc)
qed

lemma yi_less: "i < N \<Longrightarrow> k < N * N \<Longrightarrow> yi N i k < N * N * N"
proof -
  assume i: "i < N" and k: "k < N * N"
  have "i + N * (k div N) < N * N" using split_pixel [OF k] i by (simp add: digits_less)
  moreover have "N - 1 - k mod N < N" using i by simp
  ultimately have "(N - 1 - k mod N) + N * (i + N * (k div N)) < N * (N * N)"
    by (rule digits_less [rotated])
  then show ?thesis by (simp add: yi_def mult.assoc)
qed

lemma xi_inj:
  assumes "i < N" "i' < N" "k < N * N" "k' < N * N" "xi N i k = xi N i' k'"
  shows "i = i' \<and> k = k'"
proof -
  have 1: "N - 1 - i = N - 1 - i' \<and> k div N + N * (k mod N) = k' div N + N * (k' mod N)"
    using assms by (intro digits_eq [of _ N]) (simp_all add: xi_def)
  then have 2: "k div N = k' div N \<and> k mod N = k' mod N"
    using split_pixel [OF assms(3)] split_pixel [OF assms(4)] by (intro digits_eq [of _ N]) simp_all
  have "k = k'" using 2 by (metis div_mult_mod_eq)
  moreover have "i = i'" using 1 assms(1,2) by linarith
  ultimately show ?thesis by simp
qed

lemma yi_inj:
  assumes "i < N" "i' < N" "k < N * N" "k' < N * N" "yi N i k = yi N i' k'"
  shows "i = i' \<and> k = k'"
proof -
  have km: "k mod N < N" "k' mod N < N" using split_pixel assms by blast+
  have 1: "N - 1 - k mod N = N - 1 - k' mod N \<and> i + N * (k div N) = i' + N * (k' div N)"
    using assms by (intro digits_eq [of _ N]) (simp_all add: yi_def)
  then have 2: "i = i' \<and> k div N = k' div N"
    using assms by (intro digits_eq [of _ N]) simp_all
  have "k mod N = k' mod N" using 1 km by linarith
  then have "k = k'" using 2 by (metis div_mult_mod_eq)
  with 2 show ?thesis by simp
qed

lemma channel_eq:
  fixes v v' c c' :: nat
  assumes "c < 4" "c' < 4" "4 * v + c = 4 * v' + c'"
  shows "v = v' \<and> c = c'"
  using assms by presburger

lemma byte_index_bound:
  fixes v M c :: nat
  assumes "v < M" "c < 4"
  shows "0 \<le> int v * 4 + int c \<and> int v * 4 + int c < int (M * 4)"
proof -
  have "v * 4 + c < M * 4" using assms by linarith
  then have "int (v * 4 + c) < int (M * 4)" by (simp only: of_nat_less_iff)
  then show ?thesis by simp
qed

text \<open>
  The counters of the loops in closed form: the row counter is \<open>k div N\<close>, the column
  counter of the Y pass is \<open>k mod N\<close>, and with them the source's index expressions
  are \<open>xi\<close> and \<open>yi\<close>.
\<close>

lemma xRowCountAt_eq: "xRowCountAt N k = k div N"
proof (induction k)
  case 0
  show ?case by (simp add: xRowCountAt_def xRowCount_def)
next
  case (Suc k)
  have "xRowCountAt N (Suc k) = xRowCount N (Suc k) (xRowCountAt N k)"
    by (simp add: xRowCountAt_def)
  then show ?case using Suc by (simp add: xRowCount_def div_Suc)
qed

lemma yCountersAt_eq: "yCountersAt N k = (k mod N, k div N)"
proof (induction k)
  case 0
  show ?case by (simp add: yCountersAt_def yCounters_def)
next
  case (Suc k)
  have "yCountersAt N (Suc k) =
      yCounters N (Suc k) (case yCountersAt N k of (it, rowCount) \<Rightarrow> (it + 1, rowCount))"
    by (simp add: yCountersAt_def)
  then show ?case using Suc by (auto simp: yCounters_def div_Suc mod_Suc)
qed

lemma yPre_Suc: "yPre N (Suc k) = (k mod N + 1, k div N)"
proof -
  have "yPre N (Suc k) = (case yCountersAt N k of (it, rowCount) \<Rightarrow> (it + 1, rowCount))"
    by (simp add: yPre_def yCountersAt_def)
  then show ?thesis by (simp add: yCountersAt_eq)
qed

lemma yCounters_yPre: "yCounters N k (yPre N k) = (k mod N, k div N)"
  using yCountersAt_eq [of N k] by (simp add: yCountersAt_def yPre_def)

lemma xValue_closed: "i < N \<Longrightarrow> xValue N i k (k div N) = int (xi N i k)"
proof -
  assume i: "i < N"
  define r c where "r = k div N" and "c = k mod N"
  have k: "k = r * N + c" by (simp add: r_def c_def)
  have "int (N - 1 - i) = int N - 1 - int i" using i by (simp add: of_nat_diff)
  then show ?thesis
    unfolding xValue_def xi_def r_def [symmetric] c_def [symmetric]
    by (simp add: k algebra_simps)
qed

lemma yValue_closed: "i < N \<Longrightarrow> yValue N i (k div N) (k mod N) = int (yi N i k)"
proof -
  assume i: "i < N"
  then have "k mod N < N" by simp
  then have "int (N - 1 - k mod N) = int N - 1 - int (k mod N)" by (simp add: of_nat_diff)
  then show ?thesis
    unfolding yValue_def yi_def by (simp add: algebra_simps)
qed

lemma xFlat_closed: "i < N \<Longrightarrow> xFlat N i k = int (xi N i k)"
  by (simp add: xFlat_def xRowCountAt_eq xValue_closed)

lemma yFlat_closed: "i < N \<Longrightarrow> yFlat N i k = int (yi N i k)"
  by (simp add: yFlat_def yCountersAt_eq yValue_closed)

lemma zFlat_closed: "zFlat N i k = int (k + N * N * i)"
proof -
  have "zByteIndex N i (4 * k) = 4 * int (k + N * N * i)" by (simp add: zByteIndex_def)
  then show ?thesis by (simp add: zFlat_def)
qed

lemma zByteIndex_channel: "zByteIndex N i (4 * k + c) = zFlat N i k * 4 + int c"
  by (simp add: zFlat_closed zByteIndex_def)

section \<open>The three passes as lists of updates\<close>

lemma store_ch:
  "store d (int v * 4 + 0) b = d[4 * v + 0 := b]"
  "store d (int v * 4 + 1) b = d[4 * v + 1 := b]"
  "store d (int v * 4 + 2) b = d[4 * v + 2 := b]"
  "store d (int v * 4 + 3) b = d[4 * v + 3 := b]"
  using store_nat [of d "4 * v + 0" b] store_nat [of d "4 * v + 1" b]
    store_nat [of d "4 * v + 2" b] store_nat [of d "4 * v + 3" b]
  by (simp_all add: mult.commute add.commute)

lemma storeIfPositive_ch:
  "storeIfPositive d (int v * 4 + 0) b = (if b > 0 then d[4 * v + 0 := b] else d)"
  "storeIfPositive d (int v * 4 + 1) b = (if b > 0 then d[4 * v + 1 := b] else d)"
  "storeIfPositive d (int v * 4 + 2) b = (if b > 0 then d[4 * v + 2 := b] else d)"
  "storeIfPositive d (int v * 4 + 3) b = (if b > 0 then d[4 * v + 3 := b] else d)"
  unfolding storeIfPositive_def store_ch by simp_all

lemma xStep_eq:
  assumes "i < N"
  shows "xStep N sl i k (4 * k, fold (xRowCount N) [0..<k] 0, d) =
         (4 * Suc k, fold (xRowCount N) [0..<Suc k] 0, writes (xw N sl i k) d)"
proof -
  have rc: "xRowCount N k (fold (xRowCount N) [0..<k] 0) = k div N"
    using xRowCountAt_eq [of N k] by (simp add: xRowCountAt_def)
  have rc': "fold (xRowCount N) [0..<Suc k] 0 = k div N"
    using xRowCountAt_eq [of N k] by (simp only: xRowCountAt_def)
  show ?thesis
    unfolding xStep_def prod.case Let_def rc rc' xValue_closed [OF assms] store_ch
      xw_def upt_4 list.map writes_Cons writes_Nil fst_conv snd_conv option.case
    by simp
qed

lemma xLoop_eq:
  assumes "i < N"
  shows "fold (xStep N sl i) [0..<m] (0, 0, d) =
         (4 * m, fold (xRowCount N) [0..<m] 0, writes (concat (map (xw N sl i) [0..<m])) d)"
proof (induction m)
  case 0
  show ?case by (simp add: writes_Nil)
next
  case (Suc m)
  show ?case
    using Suc xStep_eq [OF assms, of sl m]
    by (simp add: writes_append del: mult_Suc_right)
qed

lemma yStep_eq:
  assumes "i < N"
  shows "yStep N sl i k (4 * k, fst (yPre N k), snd (yPre N k), d) =
         (4 * Suc k, fst (yPre N (Suc k)), snd (yPre N (Suc k)), writes (yw N sl i k) d)"
proof -
  have c: "yCounters N k (fst (yPre N k), snd (yPre N k)) = (k mod N, k div N)"
    using yCounters_yPre [of N k] by simp
  show ?thesis
    unfolding yStep_def prod.case Let_def c yValue_closed [OF assms] storeIfPositive_ch
      yw_def upt_4 list.map writes_Cons writes_Nil fst_conv snd_conv yPre_Suc
    by simp
qed

lemma yLoop_eq:
  assumes "i < N"
  shows "fold (yStep N sl i) [0..<m] (0, 0, 0, d) =
         (4 * m, fst (yPre N m), snd (yPre N m), writes (concat (map (yw N sl i) [0..<m])) d)"
proof (induction m)
  case 0
  show ?case by (simp add: writes_Nil yPre_def)
next
  case (Suc m)
  show ?case
    using Suc yStep_eq [OF assms, of sl m]
    by (simp add: writes_append del: mult_Suc_right)
qed

text \<open>
  At the head of iteration \<open>k\<close> the loops hold \<open>j = 4 * k\<close>, and the index that the
  iteration computes from its counters is \<open>xFlat\<close>, respectively \<open>yFlat\<close>.
\<close>

lemma xLoop_index:
  assumes "i < N"
  shows "(case fold (xStep N sl i) [0..<k] (0, 0, d) of
            (j, rowCount, data) \<Rightarrow>
              j = 4 * k \<and> xValue N i k (xRowCount N k rowCount) = xFlat N i k)"
  unfolding xLoop_eq [OF assms] by (simp add: xFlat_def xRowCountAt_def)

lemma yLoop_index:
  assumes "i < N"
  shows "(case fold (yStep N sl i) [0..<k] (0, 0, 0, d) of
            (j, it, rowCount, data) \<Rightarrow>
              j = 4 * k \<and>
              (case yCounters N k (it, rowCount) of (it', rowCount') \<Rightarrow> yValue N i rowCount' it')
                = yFlat N i k)"
  unfolding yLoop_eq [OF assms] by (simp add: yFlat_def yCountersAt_def yPre_def)

lemma xSlice_eq:
  "i < N \<Longrightarrow> xSlice N tex i d = writes (concat (map (xw N (readPixels N tex i) i) [0..<N * N])) d"
  by (simp add: xSlice_def xLoop_eq)

lemma ySlice_eq:
  "i < N \<Longrightarrow> ySlice N tex i d = writes (concat (map (yw N (readPixels N tex i) i) [0..<N * N])) d"
  by (simp add: ySlice_def yLoop_eq)

lemma zStep_eq:
  "zStep N sl i j =
   (\<lambda>d. case snd (N * N * i * 4 + j, if load sl j > 0 then Some (load sl j) else None) of
      None \<Rightarrow> d | Some b \<Rightarrow> d[fst (N * N * i * 4 + j, if load sl j > 0 then Some (load sl j) else None) := b])"
proof -
  have e: "zByteIndex N i j = int (N * N * i * 4 + j)" by (simp add: zByteIndex_def)
  show ?thesis unfolding zStep_def e storeIfPositive_nat by (intro ext) simp
qed

lemma zSlice_eq: "zSlice N tex i d = writes (zw N (readPixels N tex i) i) d"
  unfolding zSlice_def writes_def zw_def fold_map comp_def zStep_eq ..

lemma xPass_eq: "xPass N tex d = writes (xAll N tex) d"
proof -
  have "fold (xSlice N tex) [0..<N] d =
        fold (\<lambda>i. writes (concat (map (xw N (readPixels N tex i) i) [0..<N * N]))) [0..<N] d"
    by (rule fold_cong) (auto simp: xSlice_eq)
  then show ?thesis by (simp add: xPass_def xAll_def fold_writes_concat)
qed

lemma yPass_eq: "yPass N tex d = writes (yAll N tex) d"
proof -
  have "fold (ySlice N tex) [0..<N] d =
        fold (\<lambda>i. writes (concat (map (yw N (readPixels N tex i) i) [0..<N * N]))) [0..<N] d"
    by (rule fold_cong) (auto simp: ySlice_eq)
  then show ?thesis by (simp add: yPass_def yAll_def fold_writes_concat)
qed

lemma zPass_eq: "zPass N tex d = writes (zAll N tex) d"
proof -
  have "zSlice N tex = (\<lambda>i. writes (zw N (readPixels N tex i) i))"
    by (intro ext) (rule zSlice_eq)
  then show ?thesis by (simp add: zPass_def zAll_def fold_writes_concat)
qed

lemma length_xPass: "length (xPass N tex d) = length d"
  by (simp add: xPass_eq length_writes)

lemma length_yPass: "length (yPass N tex d) = length d"
  by (simp add: yPass_eq length_writes)

lemma length_zPass: "length (zPass N tex d) = length d"
  by (simp add: zPass_eq length_writes)

lemma in_concat_upt: "x \<in> set (concat (map f [0..<n])) \<longleftrightarrow> (\<exists>i<n. x \<in> set (f i))"
  by auto

lemma in_map_upt: "x \<in> set (map g [0..<n]) \<longleftrightarrow> (\<exists>c<n. x = g c)"
  by auto

lemma in_xAll:
  "(p, w) \<in> set (xAll N tex) \<longleftrightarrow>
   (\<exists>i<N. \<exists>k<N * N. \<exists>c<4. p = 4 * xi N i k + c \<and>
      w = Some (load (readPixels N tex i) (4 * k + c)))"
  unfolding xAll_def xw_def in_concat_upt in_map_upt by simp

lemma in_yAll:
  "(p, w) \<in> set (yAll N tex) \<longleftrightarrow>
   (\<exists>i<N. \<exists>k<N * N. \<exists>c<4. p = 4 * yi N i k + c \<and>
      w = (if load (readPixels N tex i) (4 * k + c) > 0
           then Some (load (readPixels N tex i) (4 * k + c)) else None))"
  unfolding yAll_def yw_def in_concat_upt in_map_upt by simp

lemma in_zAll:
  "(p, w) \<in> set (zAll N tex) \<longleftrightarrow>
   (\<exists>i<N. \<exists>j<N * N * 4. p = N * N * i * 4 + j \<and>
      w = (if load (readPixels N tex i) j > 0 then Some (load (readPixels N tex i) j) else None))"
  unfolding zAll_def zw_def in_concat_upt in_map_upt by simp

lemma xPass_nth:
  assumes len: "length d = N * N * N * 4" and i: "i < N" and k: "k < N * N" and c: "c < 4"
  shows "xPass N tex d ! (4 * xi N i k + c) = tex i (4 * k + c)"
proof -
  let ?p = "4 * xi N i k + c"
  let ?v = "Some (load (readPixels N tex i) (4 * k + c))"
  have ld: "load (readPixels N tex i) (4 * k + c) = tex i (4 * k + c)"
    using k c by (intro load_readPixels) simp
  have p: "?p < length d" using xi_less [OF i k] c len by simp
  have mem: "(?p, ?v) \<in> set (xAll N tex)" unfolding in_xAll using i k c by blast
  have uniq: "w = ?v" if "(?p, w) \<in> set (xAll N tex)" for w
  proof -
    from that obtain i' k' c' where *: "i' < N" "k' < N * N" "c' < 4"
      "?p = 4 * xi N i' k' + c'" "w = Some (load (readPixels N tex i') (4 * k' + c'))"
      unfolding in_xAll by blast
    have "xi N i k = xi N i' k' \<and> c = c'" using channel_eq [OF c *(3,4)] .
    moreover from this have "i = i' \<and> k = k'" using xi_inj [OF i *(1) k *(2)] by simp
    ultimately show ?thesis using *(5) by simp
  qed
  show ?thesis unfolding xPass_eq using writes_nth [OF p uniq] mem ld by simp
qed

lemma yPass_nth:
  assumes len: "length d = N * N * N * 4" and i: "i < N" and k: "k < N * N" and c: "c < 4"
  shows "yPass N tex d ! (4 * yi N i k + c) =
         (if tex i (4 * k + c) > 0 then tex i (4 * k + c) else d ! (4 * yi N i k + c))"
proof -
  let ?p = "4 * yi N i k + c"
  let ?v = "if load (readPixels N tex i) (4 * k + c) > 0
            then Some (load (readPixels N tex i) (4 * k + c)) else None"
  have ld: "load (readPixels N tex i) (4 * k + c) = tex i (4 * k + c)"
    using k c by (intro load_readPixels) simp
  have p: "?p < length d" using yi_less [OF i k] c len by simp
  have mem: "(?p, ?v) \<in> set (yAll N tex)" unfolding in_yAll using i k c by blast
  have uniq: "w = ?v" if "(?p, w) \<in> set (yAll N tex)" for w
  proof -
    from that obtain i' k' c' where *: "i' < N" "k' < N * N" "c' < 4"
      "?p = 4 * yi N i' k' + c'"
      "w = (if load (readPixels N tex i') (4 * k' + c') > 0
            then Some (load (readPixels N tex i') (4 * k' + c')) else None)"
      unfolding in_yAll by blast
    have "yi N i k = yi N i' k' \<and> c = c'" using channel_eq [OF c *(3,4)] .
    moreover from this have "i = i' \<and> k = k'" using yi_inj [OF i *(1) k *(2)] by simp
    ultimately show ?thesis using *(5) by simp
  qed
  show ?thesis unfolding yPass_eq using writes_nth [OF p uniq] mem ld by simp
qed

lemma zPass_nth:
  assumes len: "length d = N * N * N * 4" and i: "i < N" and j: "j < N * N * 4"
  shows "zPass N tex d ! (N * N * i * 4 + j) =
         (if tex i j > 0 then tex i j else d ! (N * N * i * 4 + j))"
proof -
  let ?p = "N * N * i * 4 + j"
  let ?v = "if load (readPixels N tex i) j > 0 then Some (load (readPixels N tex i) j) else None"
  have ld: "load (readPixels N tex i) j = tex i j"
    using j by (rule load_readPixels)
  have "j + (N * N * 4) * i < (N * N * 4) * N" by (rule digits_less [OF j i])
  then have p: "?p < length d" using len by (simp add: ac_simps)
  have mem: "(?p, ?v) \<in> set (zAll N tex)" unfolding in_zAll using i j by blast
  have uniq: "w = ?v" if "(?p, w) \<in> set (zAll N tex)" for w
  proof -
    from that obtain i' j' where *: "i' < N" "j' < N * N * 4"
      "?p = N * N * i' * 4 + j'"
      "w = (if load (readPixels N tex i') j' > 0 then Some (load (readPixels N tex i') j') else None)"
      unfolding in_zAll by blast
    have "j + (N * N * 4) * i = j' + (N * N * 4) * i'" using *(3) by (simp add: ac_simps)
    then have "j = j' \<and> i = i'" by (rule digits_eq [OF j *(2)])
    then show ?thesis using *(4) by simp
  qed
  show ?thesis unfolding zPass_eq using writes_nth [OF p uniq] mem ld by simp
qed

lemma length_mergeData: "length (mergeData N tx ty tz) = N * N * N * 4"
  by (simp add: mergeData_def length_zPass length_yPass length_xPass)

lemma voxel_preimages:
  assumes "x < N" "y < N" "z < N"
  shows "xi N (N - 1 - x) (y * N + z) = x + y * N + z * N * N"
    and "yi N y (z * N + (N - 1 - x)) = x + y * N + z * N * N"
    and "y * N + z < N * N" and "z * N + (N - 1 - x) < N * N" and "y * N + x < N * N"
proof -
  have a: "N - 1 - (N - 1 - x) = x" using assms by simp
  have b: "N - 1 - x < N" using assms by simp
  show "xi N (N - 1 - x) (y * N + z) = x + y * N + z * N * N"
    using assms by (simp add: xi_def a algebra_simps)
  have m: "(z * N + (N - 1 - x)) mod N = N - 1 - x" and d: "(z * N + (N - 1 - x)) div N = z"
    using b by simp_all
  show "yi N y (z * N + (N - 1 - x)) = x + y * N + z * N * N"
    unfolding yi_def m d a by (simp add: algebra_simps)
  show "y * N + z < N * N" using digits_less [OF assms(3,2)] by (simp add: ac_simps)
  show "z * N + (N - 1 - x) < N * N" using digits_less [OF b assms(3)] by (simp add: ac_simps)
  show "y * N + x < N * N" using digits_less [OF assms(1,2)] by (simp add: ac_simps)
qed

lemma mergeData_nth:
  assumes "x < N" "y < N" "z < N" "c < 4"
  shows "mergeData N tx ty tz ! (4 * (x + y * N + z * N * N) + c) =
         (if tz z (4 * (y * N + x) + c) \<noteq> 0 then tz z (4 * (y * N + x) + c)
          else if ty y (4 * (z * N + (N - 1 - x)) + c) \<noteq> 0 then ty y (4 * (z * N + (N - 1 - x)) + c)
          else tx (N - 1 - x) (4 * (y * N + z) + c))"
proof -
  let ?d0 = "replicate (N * N * N * 4) (0::byte)"
  let ?d1 = "xPass N tx ?d0"
  let ?d2 = "yPass N ty ?d1"
  let ?p = "4 * (x + y * N + z * N * N) + c"
  note pre = voxel_preimages [OF assms(1-3)]
  have ix: "N - 1 - x < N" using assms by simp
  have l0: "length ?d0 = N * N * N * 4" by simp
  have l1: "length ?d1 = N * N * N * 4" by (simp add: length_xPass)
  have l2: "length ?d2 = N * N * N * 4" by (simp add: length_yPass length_xPass)
  have 1: "?d1 ! ?p = tx (N - 1 - x) (4 * (y * N + z) + c)"
    using xPass_nth [OF l0 ix pre(3) assms(4), of tx] unfolding pre(1) .
  have 2: "?d2 ! ?p = (if ty y (4 * (z * N + (N - 1 - x)) + c) > 0
      then ty y (4 * (z * N + (N - 1 - x)) + c) else ?d1 ! ?p)"
    using yPass_nth [OF l1 assms(2) pre(4) assms(4), of ty] unfolding pre(2) .
  have j: "4 * (y * N + x) + c < N * N * 4" using pre(5) assms(4) by simp
  have e: "N * N * z * 4 + (4 * (y * N + x) + c) = ?p" by (simp add: algebra_simps)
  have 3: "zPass N tz ?d2 ! ?p = (if tz z (4 * (y * N + x) + c) > 0
      then tz z (4 * (y * N + x) + c) else ?d2 ! ?p)"
    using zPass_nth [OF l2 assms(3) j, of tz] unfolding e .
  show ?thesis
    unfolding mergeData_def 3 2 1 by (simp add: word_greater_zero_iff)
qed

section \<open>Properties of the merge\<close>

text \<open>
  Claim C1 (merge combine rule).  Let \<open>N\<close> be the resolution and \<open>x, y, z < N\<close>, and let
  \<open>c < 4\<close> be a channel.  After the merge step the volume byte of voxel \<open>(x, y, z)\<close>,
  at \<open>4 * (x + y * N + z * N * N) + c\<close>, is the Z capture's value for that voxel if it
  is not 0, else the Y capture's value if it is not 0, else the X capture's value.  The
  first three conjuncts say which slice and pixel of each capture the index arithmetic of
  the source sends to the voxel: slice \<open>N - 1 - x\<close>, pixel \<open>y * N + z\<close> of the X capture,
  slice \<open>y\<close>, pixel \<open>z * N + (N - 1 - x)\<close> of the Y capture, and slice \<open>z\<close>, pixel
  \<open>y * N + x\<close> of the Z capture.
\<close>

theorem merge_combine_rule:
  assumes "voxelTextureSize this = N" and "x < N" and "y < N" and "z < N" and "c < 4"
  shows "xFlat N (N - 1 - x) (y * N + z) = int (x + y * N + z * N * N)
       \<and> yFlat N y (z * N + (N - 1 - x)) = int (x + y * N + z * N * N)
       \<and> zFlat N z (y * N + x) = int (x + y * N + z * N * N)
       \<and> 4 * (x + y * N + z * N * N) + c < length (voxelTexture (mergeStep this))
       \<and> voxelTexture (mergeStep this) ! (4 * (x + y * N + z * N * N) + c) =
           (let xv = xTexture this (N - 1 - x) (4 * (y * N + z) + c);
                yv = yTexture this y (4 * (z * N + (N - 1 - x)) + c);
                zv = zTexture this z (4 * (y * N + x) + c)
            in if zv \<noteq> 0 then zv else if yv \<noteq> 0 then yv else xv)"
proof -
  note pre = voxel_preimages [OF assms(2-4)]
  have ix: "N - 1 - x < N" using assms by simp
  have 1: "xFlat N (N - 1 - x) (y * N + z) = int (x + y * N + z * N * N)"
    by (simp only: xFlat_closed [OF ix] pre(1))
  have 2: "yFlat N y (z * N + (N - 1 - x)) = int (x + y * N + z * N * N)"
    by (simp only: yFlat_closed [OF assms(3)] pre(2))
  have 3: "zFlat N z (y * N + x) = int (x + y * N + z * N * N)"
    by (simp add: zFlat_closed algebra_simps)
  have "x + N * (y + N * z) < N * (N * N)"
    using assms by (intro digits_less) (simp_all add: digits_less)
  then have 4: "4 * (x + y * N + z * N * N) + c < length (voxelTexture (mergeStep this))"
    using assms(1,5) by (simp add: mergeStep_def length_mergeData algebra_simps)
  have 5: "voxelTexture (mergeStep this) ! (4 * (x + y * N + z * N * N) + c) =
           (let xv = xTexture this (N - 1 - x) (4 * (y * N + z) + c);
                yv = yTexture this y (4 * (z * N + (N - 1 - x)) + c);
                zv = zTexture this z (4 * (y * N + x) + c)
            in if zv \<noteq> 0 then zv else if yv \<noteq> 0 then yv else xv)"
    using mergeData_nth [OF assms(2-5)] assms(1) by (simp add: mergeStep_def Let_def)
  show ?thesis using 1 2 3 4 5 by blast
qed

theorem merge_combine_rule_witness:
  "voxelTexture (mergeStep \<lparr> voxelTextureSize = 2, xTexture = (\<lambda>i j. 1),
       yTexture = (\<lambda>i j. if i = 0 then 5 else 0), zTexture = (\<lambda>i j. if i = 0 then 3 else 0),
       voxelTexture = [] \<rparr>) ! 21 = 5
   \<and> xFlat 2 0 1 = 5 \<and> yFlat 2 0 2 = 5 \<and> zFlat 2 1 1 = 5"
  using merge_combine_rule [of "\<lparr> voxelTextureSize = 2, xTexture = (\<lambda>i j. 1),
       yTexture = (\<lambda>i j. if i = 0 then 5 else 0), zTexture = (\<lambda>i j. if i = 0 then 3 else 0),
       voxelTexture = [] \<rparr>" 2 1 0 1 1]
  by simp

text \<open>
  Claim C8 (merge idempotence, no hidden accumulation).  The merge step starts from a new
  zero-filled buffer and reads the captures only: whatever the volume held before, the
  result is the same, and merging the same captures a second time leaves the whole state
  as the first merge made it.
\<close>

theorem merge_no_hidden_accumulation:
  "mergeStep (this\<lparr> voxelTexture := d \<rparr>) = mergeStep this
   \<and> mergeStep (mergeStep this) = mergeStep this"
  by (simp add: mergeStep_def)

text \<open>
  Claim C10 (remap indices in bounds and alias-free per axis).  For slices \<open>i, i' < N\<close>,
  pixels \<open>k, k' < N * N\<close> and a channel \<open>c < 4\<close>, in each of the three passes the
  voxel index lies in \<open>[0, N * N * N)\<close>, two pairs (slice, pixel) with the same voxel
  index are the same pair, and the byte written for channel \<open>c\<close> lies inside the buffer
  of \<open>N * N * N * 4\<close> bytes.
\<close>

theorem merge_remap_in_bounds_alias_free:
  assumes "i < N" and "i' < N" and "k < N * N" and "k' < N * N" and "c < 4"
  shows "(0 \<le> xFlat N i k \<and> xFlat N i k < int (N * N * N)
          \<and> (xFlat N i k = xFlat N i' k' \<longrightarrow> i = i' \<and> k = k')
          \<and> 0 \<le> xFlat N i k * 4 + int c \<and> xFlat N i k * 4 + int c < int (N * N * N * 4))
       \<and> (0 \<le> yFlat N i k \<and> yFlat N i k < int (N * N * N)
          \<and> (yFlat N i k = yFlat N i' k' \<longrightarrow> i = i' \<and> k = k')
          \<and> 0 \<le> yFlat N i k * 4 + int c \<and> yFlat N i k * 4 + int c < int (N * N * N * 4))
       \<and> (0 \<le> zFlat N i k \<and> zFlat N i k < int (N * N * N)
          \<and> (zFlat N i k = zFlat N i' k' \<longrightarrow> i = i' \<and> k = k')
          \<and> zByteIndex N i (4 * k + c) = zFlat N i k * 4 + int c
          \<and> 0 \<le> zByteIndex N i (4 * k + c) \<and> zByteIndex N i (4 * k + c) < int (N * N * N * 4))"
proof -
  have xb: "xi N i k < N * N * N" by (rule xi_less [OF assms(1,3)])
  have yb: "yi N i k < N * N * N" by (rule yi_less [OF assms(1,3)])
  have zb: "k + N * N * i < N * N * N" using digits_less [OF assms(3,1)] by simp
  have xinj: "xi N i k = xi N i' k' \<longrightarrow> i = i' \<and> k = k'"
    using xi_inj [OF assms(1-4)] by blast
  have yinj: "yi N i k = yi N i' k' \<longrightarrow> i = i' \<and> k = k'"
    using yi_inj [OF assms(1-4)] by blast
  have zinj: "k + N * N * i = k' + N * N * i' \<longrightarrow> i = i' \<and> k = k'"
    using digits_eq [OF assms(3,4)] by blast
  have X: "0 \<le> xFlat N i k \<and> xFlat N i k < int (N * N * N)
          \<and> (xFlat N i k = xFlat N i' k' \<longrightarrow> i = i' \<and> k = k')
          \<and> 0 \<le> xFlat N i k * 4 + int c \<and> xFlat N i k * 4 + int c < int (N * N * N * 4)"
    unfolding xFlat_closed [OF assms(1)] xFlat_closed [OF assms(2)]
    using xb xinj byte_index_bound [OF xb assms(5)] by (simp del: of_nat_mult of_nat_add)
  have Y: "0 \<le> yFlat N i k \<and> yFlat N i k < int (N * N * N)
          \<and> (yFlat N i k = yFlat N i' k' \<longrightarrow> i = i' \<and> k = k')
          \<and> 0 \<le> yFlat N i k * 4 + int c \<and> yFlat N i k * 4 + int c < int (N * N * N * 4)"
    unfolding yFlat_closed [OF assms(1)] yFlat_closed [OF assms(2)]
    using yb yinj byte_index_bound [OF yb assms(5)] by (simp del: of_nat_mult of_nat_add)
  have Z: "0 \<le> zFlat N i k \<and> zFlat N i k < int (N * N * N)
          \<and> (zFlat N i k = zFlat N i' k' \<longrightarrow> i = i' \<and> k = k')
          \<and> zByteIndex N i (4 * k + c) = zFlat N i k * 4 + int c
          \<and> 0 \<le> zByteIndex N i (4 * k + c) \<and> zByteIndex N i (4 * k + c) < int (N * N * N * 4)"
    unfolding zByteIndex_channel zFlat_closed
    using zb zinj byte_index_bound [OF zb assms(5)] by (simp del: of_nat_mult of_nat_add)
  show ?thesis using X Y Z by blast
qed

theorem merge_remap_in_bounds_alias_free_witness:
  "0 \<le> xFlat 2 0 1 \<and> xFlat 2 0 1 < 8 \<and> xFlat 2 0 1 \<noteq> xFlat 2 1 2
   \<and> 0 \<le> yFlat 2 0 1 \<and> yFlat 2 0 1 < 8 \<and> yFlat 2 0 1 \<noteq> yFlat 2 1 2
   \<and> 0 \<le> zFlat 2 0 1 \<and> zFlat 2 0 1 < 8 \<and> zFlat 2 0 1 \<noteq> zFlat 2 1 2
   \<and> zByteIndex 2 0 7 = zFlat 2 0 1 * 4 + 3 \<and> zByteIndex 2 0 7 < 32"
  using merge_remap_in_bounds_alias_free [of 0 2 1 1 2 3]
  by simp

section \<open>The slice cameras\<close>

text \<open>
  Claim C3 (the configured scene scale is the one voxelize uses).  The code does not do
  this: whatever scene scale the constructor is given, the camera of slice \<open>i\<close> has
  the bounds \<open>-3000\<close> and \<open>3000\<close> and cuts the depth range from \<open>3000\<close> down to
  \<open>-3000\<close>; a tracer constructed with the scene scale 1000 voxelizes the cube of half
  extent 3000.
\<close>

theorem sliceCamera_ignores_constructor_sceneScale:
  "sliceCamera (constructor s cubeSize resolution) i =
     \<lparr> left = - 3000, right = 3000, bottom = - 3000, top = 3000,
       near = 3000 - real i / real resolution * 3000 * 2,
       far = 3000 - (real i + 1) / real resolution * 3000 * 2 \<rparr>
   \<and> left (sliceCamera (constructor 1000 1000 64) 0) = - 3000
   \<and> right (sliceCamera (constructor 1000 1000 64) 0) = 3000
   \<and> near (sliceCamera (constructor 1000 1000 64) 0) = 3000
   \<and> far (sliceCamera (constructor 1000 1000 64) 63) = - 3000
   \<and> far (sliceCamera (constructor s cubeSize resolution) i) =
       near (sliceCamera (constructor s cubeSize resolution) (Suc i))"
  by (simp add: sliceCamera_def constructor_def Let_def)

section \<open>Properties of the cone march\<close>

lemma diameter_ge: "vws \<le> diameter vws t d"
  by (simp add: diameter_def)

lemma diameter_mono: "0 \<le> t \<Longrightarrow> d1 \<le> d2 \<Longrightarrow> diameter vws t d1 \<le> diameter vws t d2"
  unfolding diameter_def by (intro max.mono order_refl mult_left_mono) simp_all

text \<open>
  Claim C7 (the mip level is never negative).  For a positive voxel size the mip level of
  a step is at least 0, whatever the cone angle and the distance: the footprint is at
  least one voxel.
\<close>

theorem mip_never_negative: "0 < vws \<Longrightarrow> 0 \<le> mip vws tanHalfAngle d"
proof -
  assume v: "0 < vws"
  have "1 \<le> diameter vws tanHalfAngle d / vws"
    using v diameter_ge [of vws tanHalfAngle d] by (simp add: le_divide_eq_1_pos)
  then show ?thesis by (simp add: mip_def)
qed

theorem mip_never_negative_witness: "(0::real) < 2 \<and> 0 \<le> mip 2 0 5"
  using mip_never_negative [of 2 0 5] by simp

text \<open>
  Claim C6 (mip selection is monotone).  For a cone with \<open>tanHalfAngle \<ge> 0\<close> and a
  positive voxel size, the mip level does not decrease when the marched distance grows.
\<close>

theorem mip_monotone:
  "0 \<le> tanHalfAngle \<Longrightarrow> 0 < vws \<Longrightarrow> d1 \<le> d2 \<Longrightarrow> mip vws tanHalfAngle d1 \<le> mip vws tanHalfAngle d2"
proof -
  assume t: "0 \<le> tanHalfAngle" and v: "0 < vws" and d: "d1 \<le> d2"
  have p1: "0 < diameter vws tanHalfAngle d1 / vws"
    using v diameter_ge [of vws tanHalfAngle d1] by simp
  have "diameter vws tanHalfAngle d1 / vws \<le> diameter vws tanHalfAngle d2 / vws"
    using v diameter_mono [OF t d, of vws] by (simp add: divide_right_mono)
  then show ?thesis using p1 by (simp add: mip_def)
qed

theorem mip_monotone_witness:
  "(0::real) \<le> 1 \<and> (0::real) < 2 \<and> (3::real) \<le> 4 \<and> mip 2 1 3 \<le> mip 2 1 4"
  using mip_monotone [of 1 2 3 4] by simp

text \<open>
  One loop body: alpha and occlusion grow by the same amount, the distance grows by the
  footprint times the step size, and the colour receives the sample twice, once weighted
  by \<open>1 - alpha\<close> and once unweighted.
\<close>

lemma coneStep_alpha:
  "alpha (coneStep env direction t sp s) - alpha s = occlusion (coneStep env direction t sp s) - occlusion s"
  by (simp add: coneStep_def Let_def)

lemma coneStep_dist:
  "dist' (coneStep env direction t sp s) =
     dist' s + diameter (voxelWorldSize env) t (dist' s) * voxelConeStepSize env"
  by (simp add: coneStep_def Let_def)

lemma coneStep_color:
  "color (coneStep env direction t sp s) =
     vadd (vadd (color s)
             (smul (1 - alpha s)
                (vec4_rgb (textureLod env
                   (scaleAndBias (sdiv (vadd sp (smul (dist' s) direction)) (sceneScale env)))
                   (mip (voxelWorldSize env) t (dist' s))))))
          (vec4_rgb (textureLod env
             (scaleAndBias (sdiv (vadd sp (smul (dist' s) direction)) (sceneScale env)))
             (mip (voxelWorldSize env) t (dist' s))))"
  by (simp add: coneStep_def Let_def)

lemma coneStep_uniformVolume:
  "coneStep (uniformVolume h al) d t sp s =
     \<lparr> color = vadd (vadd (color s) (smul (1 - alpha s) (1, 1, 1))) (1, 1, 1),
       alpha = alpha s + (1 - alpha s) * al,
       occlusion = occlusion s + (1 - alpha s) * al,
       dist' = dist' s + max 1 (2 * t * dist' s) * h \<rparr>"
  by (simp add: coneStep_def uniformVolume_def Let_def diameter_def vec4_rgb_def vec4_a_def)

lemma coneInit_uniformVolume:
  "coneInit (uniformVolume h al) = \<lparr> color = (0, 0, 0), alpha = 0, occlusion = 0, dist' = 1 \<rparr>"
  by (simp add: coneInit_def uniformVolume_def)

lemma voxelWorldSize_uniformVolume: "voxelWorldSize (uniformVolume h al) = 1"
  by (simp add: uniformVolume_def)

lemma voxelConeStepSize_uniformVolume: "voxelConeStepSize (uniformVolume h al) = h"
  by (simp add: uniformVolume_def)

text \<open>
  Claim C2 (front-to-back compositing, no other addition to the colour).  The code does
  not do this: on a volume of colour \<open>(1, 1, 1)\<close> and alpha 1, the first step takes the
  colour from \<open>(0, 0, 0)\<close> to \<open>(2, 2, 2)\<close>, where
  \<open>color + (1 - alpha) * sampleColor\<close> is \<open>(1, 1, 1)\<close>.
\<close>

theorem coneStep_adds_sample_color_twice:
  "color (coneStep (uniformVolume 1 1) (0, 1, 0) 0 (0, 1, 0) (coneInit (uniformVolume 1 1))) = (2, 2, 2)
   \<and> vadd (color (coneInit (uniformVolume 1 1)))
        (smul (1 - alpha (coneInit (uniformVolume 1 1))) (1, 1, 1)) = (1, 1, 1)"
  unfolding coneStep_uniformVolume coneInit_uniformVolume by (simp add: vadd_def smul_def)

text \<open>
  The loop: a result does not depend on how many bodies are allowed beyond those it runs;
  alpha and occlusion stay equal; and a loop that starts \<open>n\<close> minimal steps or fewer
  from the distance limit runs at most \<open>n\<close> bodies.
\<close>

lemma coneLoop_fuel:
  "coneLoop n env direction t sp s = Some s' \<Longrightarrow> coneLoop (n + m) env direction t sp s = Some s'"
proof (induction n arbitrary: s)
  case 0
  then show ?case by (cases m) (simp_all split: if_splits)
next
  case (Suc n)
  then show ?case by (auto simp: Let_def split: if_splits)
qed

lemma coneLoop_occlusion:
  "alpha s = occlusion s \<Longrightarrow> coneLoop n env direction t sp s = Some s' \<Longrightarrow> alpha s' = occlusion s'"
proof (induction n arbitrary: s)
  case 0
  then show ?case by (simp split: if_splits)
next
  case (Suc n)
  let ?s1 = "coneStep env direction t sp s"
  have a1: "alpha ?s1 = occlusion ?s1" using coneStep_alpha [of env direction t sp s] Suc.prems(1) by simp
  show ?case
  proof (cases "dist' s < 50 * voxelWorldSize env")
    case False
    then show ?thesis using Suc.prems by simp
  next
    case True
    show ?thesis
    proof (cases "alpha ?s1 > 0.95")
      case True
      with \<open>dist' s < 50 * voxelWorldSize env\<close> Suc.prems(2) a1 show ?thesis by (simp add: Let_def)
    next
      case False
      with True Suc.prems(2) have "coneLoop n env direction t sp ?s1 = Some s'" by (simp add: Let_def)
      then show ?thesis using Suc.IH [OF a1] by simp
    qed
  qed
qed

lemma coneLoop_bound:
  assumes v: "0 < voxelWorldSize env" and st: "0 < voxelConeStepSize env"
  shows "50 * voxelWorldSize env - dist' s \<le> real n * (voxelWorldSize env * voxelConeStepSize env)
         \<Longrightarrow> coneLoop n env direction t sp s \<noteq> None"
proof (induction n arbitrary: s)
  case 0
  then show ?case by simp
next
  case (Suc n)
  let ?s1 = "coneStep env direction t sp s"
  have "voxelWorldSize env * voxelConeStepSize env
        \<le> diameter (voxelWorldSize env) t (dist' s) * voxelConeStepSize env"
    using st diameter_ge [of "voxelWorldSize env" t "dist' s"] by (simp add: mult_right_mono)
  then have "50 * voxelWorldSize env - dist' ?s1
        \<le> real n * (voxelWorldSize env * voxelConeStepSize env)"
    using Suc.prems by (simp add: coneStep_dist algebra_simps)
  then have "coneLoop n env direction t sp ?s1 \<noteq> None" by (rule Suc.IH)
  then show ?case by (simp add: Let_def)
qed

lemma coneTrace_None: "coneTrace n env direction t = None \<longleftrightarrow>
    coneLoop n env direction t (coneStart env) (coneInit env) = None"
  by (simp add: coneTrace_def split: option.splits)

lemma coneTrace_enough:
  assumes v: "0 < voxelWorldSize env" and st: "0 < voxelConeStepSize env"
    and n: "49 \<le> real n * voxelConeStepSize env"
  shows "coneTrace n env direction t \<noteq> None"
proof -
  have "49 * voxelWorldSize env \<le> (real n * voxelConeStepSize env) * voxelWorldSize env"
    using n v by (intro mult_right_mono) simp_all
  then have "50 * voxelWorldSize env - dist' (coneInit env)
      \<le> real n * (voxelWorldSize env * voxelConeStepSize env)"
    by (simp add: coneInit_def algebra_simps)
  then show ?thesis unfolding coneTrace_None by (rule coneLoop_bound [OF v st])
qed

text \<open>
  Claim C9 (occlusion equals the accumulated alpha).  Whenever coneTrace returns, its
  out-parameter \<open>occlusion\<close> is the alpha component of the returned vector.
\<close>

theorem occlusion_equals_alpha:
  "coneTrace n env direction tanHalfAngle = Some (result, occ) \<Longrightarrow> vec4_a result = occ"
proof -
  assume r: "coneTrace n env direction tanHalfAngle = Some (result, occ)"
  then obtain s where s: "coneLoop n env direction tanHalfAngle (coneStart env) (coneInit env) = Some s"
    and res: "result = (color s, alpha s)" "occ = occlusion s"
    by (auto simp: coneTrace_def split: option.splits)
  have "alpha (coneInit env) = occlusion (coneInit env)" by (simp add: coneInit_def)
  then have "alpha s = occlusion s" using s by (rule coneLoop_occlusion)
  then show ?thesis using res by (simp add: vec4_a_def)
qed

theorem occlusion_equals_alpha_witness:
  "coneTrace (Suc 0) (uniformVolume 1 1) (0, 1, 0) 0 = Some (((2, 2, 2), 1), 1)
   \<and> vec4_a ((2, 2, 2), 1) = 1"
proof -
  have s1: "coneStep (uniformVolume 1 1) (0, 1, 0) 0 sp (coneInit (uniformVolume 1 1)) =
      \<lparr> color = (2, 2, 2), alpha = 1, occlusion = 1, dist' = 2 \<rparr>" for sp
    unfolding coneStep_uniformVolume coneInit_uniformVolume by (simp add: vadd_def smul_def)
  have p: "coneTrace (Suc 0) (uniformVolume 1 1) (0, 1, 0) 0 = Some (((2, 2, 2), 1), 1)"
    unfolding coneTrace_def coneLoop.simps s1 Let_def
    by (simp add: coneInit_uniformVolume voxelWorldSize_uniformVolume)
  show ?thesis using occlusion_equals_alpha [OF p] p by simp
qed

text \<open>
  The rounded march: with the exact arithmetic it is the march above; in an arithmetic
  accurate to \<open>u\<close> every loop body advances the distance by at least the voxel size
  times the effective step, so a loop that is \<open>n\<close> such advances or fewer from the
  rounded distance limit runs at most \<open>n\<close> bodies.
\<close>

lemma accurate_exactArithmetic: "0 \<le> u \<Longrightarrow> accurate u exactArithmetic"
  by (simp add: accurate_def exactArithmetic_def)

lemma accurate_absorbingArithmetic: "0 \<le> u \<Longrightarrow> accurate u (absorbingArithmetic u)"
  by (simp add: accurate_def absorbingArithmetic_def)

lemma roundedStep_exact:
  "roundedStep exactArithmetic env direction t sp s = coneStep env direction t sp s"
  by (simp add: roundedStep_def coneStep_def exactArithmetic_def Let_def fvadd_def fsmul_def fsdiv_def
      vadd_def smul_def sdiv_def scaleAndBias_def diameter_def mip_def split: prod.splits)

lemma roundedLoop_exact:
  "roundedLoop exactArithmetic n env direction t sp (50 * voxelWorldSize env) s =
   coneLoop n env direction t sp s"
  by (induction n arbitrary: s) (simp_all add: roundedStep_exact Let_def)

lemma roundedTrace_exact:
  "roundedTrace exactArithmetic n env direction t = coneTrace n env direction t"
proof -
  have 1: "fmul exactArithmetic 50 (voxelWorldSize env) = 50 * voxelWorldSize env"
    by (simp add: exactArithmetic_def)
  have 2: "fvadd exactArithmetic (position_world env)
        (fsmul exactArithmetic (voxelWorldSize env) (normal_world env)) = coneStart env"
    by (simp add: coneStart_def exactArithmetic_def fvadd_def fsmul_def vadd_def smul_def
        split: prod.splits)
  show ?thesis
    unfolding roundedTrace_def coneTrace_def Let_def 1 2 roundedLoop_exact ..
qed

lemma effectiveStep_exact: "effectiveStep 0 h = h"
  by (simp add: effectiveStep_def)

lemma roundedStep_dist:
  "dist' (roundedStep ar env direction t sp s) =
     fadd ar (dist' s)
       (fmul ar (max (voxelWorldSize env) (fmul ar (fmul ar 2 t) (dist' s))) (voxelConeStepSize env))"
  by (simp add: roundedStep_def Let_def)

lemma rounded_progress:
  assumes acc: "accurate u ar" and u0: "0 \<le> u" and u1: "u \<le> 1 / 50"
    and v: "0 < vws" and h: "0 < h" and d0: "0 \<le> d" and d1: "d \<le> 50 * vws * (1 + u)"
  shows "d + vws * effectiveStep u h \<le> fadd ar d (fmul ar (max vws q) h)"
proof -
  let ?D = "max vws q"
  let ?inc = "fmul ar ?D h"
  have D: "vws \<le> ?D" by simp
  have Dh: "0 < ?D * h" using v h D by (intro mult_pos_pos) linarith+
  have "\<bar>?inc - ?D * h\<bar> \<le> u * \<bar>?D * h\<bar>" using acc by (simp add: accurate_def)
  then have "?D * h - u * (?D * h) \<le> ?inc" using Dh by linarith
  then have i1: "?D * h * (1 - u) \<le> ?inc" by (simp add: algebra_simps)
  have hu: "0 \<le> h * (1 - u)" using h u1 by simp
  have "vws * (h * (1 - u)) \<le> ?D * (h * (1 - u))" using D hu by (rule mult_right_mono)
  then have i2: "vws * h * (1 - u) \<le> ?inc" using i1 by (simp add: mult.assoc)
  have i0: "0 \<le> ?inc"
  proof -
    have "0 \<le> vws * (h * (1 - u))" using v hu by simp
    then show ?thesis using i2 by (simp add: mult.assoc)
  qed
  have "\<bar>fadd ar d ?inc - (d + ?inc)\<bar> \<le> u * \<bar>d + ?inc\<bar>" using acc by (simp add: accurate_def)
  then have "(d + ?inc) - u * (d + ?inc) \<le> fadd ar d ?inc" using d0 i0 by simp
  then have a1: "d + ?inc * (1 - u) - u * d \<le> fadd ar d ?inc" by (simp add: algebra_simps)
  have "vws * h * (1 - u) * (1 - u) \<le> ?inc * (1 - u)"
    using i2 u1 by (intro mult_right_mono) simp_all
  moreover have "u * d \<le> u * (50 * vws * (1 + u))" using d1 u0 by (rule mult_left_mono)
  ultimately have "d + vws * h * (1 - u) * (1 - u) - u * (50 * vws * (1 + u)) \<le> fadd ar d ?inc"
    using a1 by linarith
  moreover have "d + vws * effectiveStep u h = d + vws * h * (1 - u) * (1 - u) - u * (50 * vws * (1 + u))"
    by (simp add: effectiveStep_def algebra_simps)
  ultimately show ?thesis by simp
qed

lemma roundedLoop_bound:
  assumes acc: "accurate u ar" and u0: "0 \<le> u" and u1: "u \<le> 1 / 50"
    and v: "0 < voxelWorldSize env" and h: "0 < voxelConeStepSize env"
    and e: "0 < effectiveStep u (voxelConeStepSize env)"
    and M: "M \<le> 50 * voxelWorldSize env * (1 + u)"
  shows "0 \<le> dist' s \<Longrightarrow>
         M - dist' s \<le> real n * (voxelWorldSize env * effectiveStep u (voxelConeStepSize env))
         \<Longrightarrow> roundedLoop ar n env direction t sp M s \<noteq> None"
proof (induction n arbitrary: s)
  case 0
  then show ?case by simp
next
  case (Suc n)
  let ?s1 = "roundedStep ar env direction t sp s"
  let ?w = "voxelWorldSize env * effectiveStep u (voxelConeStepSize env)"
  show ?case
  proof (cases "dist' s < M")
    case False
    then show ?thesis by simp
  next
    case True
    then have dM: "dist' s \<le> 50 * voxelWorldSize env * (1 + u)" using M by linarith
    have p: "dist' s + ?w \<le> dist' ?s1"
      unfolding roundedStep_dist
      by (rule rounded_progress [OF acc u0 u1 v h Suc.prems(1) dM])
    have w: "0 \<le> ?w" using v e by simp
    have 1: "0 \<le> dist' ?s1" using p w Suc.prems(1) by linarith
    have "M - dist' ?s1 \<le> real n * ?w" using p Suc.prems(2) by (simp add: algebra_simps)
    then have "roundedLoop ar n env direction t sp M ?s1 \<noteq> None" by (rule Suc.IH [OF 1])
    then show ?thesis by (simp add: Let_def)
  qed
qed

lemma roundedTrace_None:
  "roundedTrace ar n env direction t = None \<longleftrightarrow>
   roundedLoop ar n env direction t
     (fvadd ar (position_world env) (fsmul ar (voxelWorldSize env) (normal_world env)))
     (fmul ar 50 (voxelWorldSize env)) (coneInit env) = None"
  by (simp add: roundedTrace_def Let_def split: option.splits)

lemma roundedTrace_enough:
  assumes acc: "accurate u ar" and u0: "0 \<le> u" and u1: "u \<le> 1 / 50"
    and v: "0 < voxelWorldSize env"
    and e: "0 < effectiveStep u (voxelConeStepSize env)"
    and n: "49 + 50 * u \<le> real n * effectiveStep u (voxelConeStepSize env)"
  shows "roundedTrace ar n env direction t \<noteq> None"
proof -
  let ?h = "voxelConeStepSize env"
  let ?M = "fmul ar 50 (voxelWorldSize env)"
  have h: "0 < ?h"
  proof (rule ccontr)
    assume "\<not> 0 < ?h"
    then have "?h * ((1 - u) * (1 - u)) \<le> 0" by (simp add: mult_le_0_iff)
    moreover have "0 \<le> 50 * u * (1 + u)" using u0 by simp
    ultimately show False using e by (simp add: effectiveStep_def mult.assoc)
  qed
  have "\<bar>?M - 50 * voxelWorldSize env\<bar> \<le> u * \<bar>50 * voxelWorldSize env\<bar>"
    using acc by (simp add: accurate_def)
  then have "?M \<le> 50 * voxelWorldSize env + u * (50 * voxelWorldSize env)" using v by simp
  then have M: "?M \<le> 50 * voxelWorldSize env * (1 + u)" by (simp add: algebra_simps)
  have "(49 + 50 * u) * voxelWorldSize env \<le> (real n * effectiveStep u ?h) * voxelWorldSize env"
    using n v by (intro mult_right_mono) simp_all
  then have "?M - dist' (coneInit env) \<le> real n * (voxelWorldSize env * effectiveStep u ?h)"
    using M by (simp add: coneInit_def algebra_simps)
  moreover have "0 \<le> dist' (coneInit env)" using v by (simp add: coneInit_def)
  ultimately have "roundedLoop ar n env direction t
      (fvadd ar (position_world env) (fsmul ar (voxelWorldSize env) (normal_world env)))
      ?M (coneInit env) \<noteq> None"
    by (intro roundedLoop_bound [OF acc u0 u1 v h e M])
  then show ?thesis unfolding roundedTrace_None .
qed

text \<open>
  Claim C4 (cone-march termination), as the code has it.  Let the additions and
  multiplications of the shader be accurate to \<open>u \<le> 1 / 50\<close> (binary32: \<open>u = 1 / 2 ^ 24\<close>),
  the voxel size be positive and the effective step \<open>h'\<close> of the step size be positive
  (\<open>h' = h\<close> without rounding).  Then, whatever the direction, the cone angle and the sampled
  alpha, the loop runs at most \<open>\<lceil>50 / h'\<rceil>\<close> bodies.
\<close>

theorem cone_march_iteration_bound:
  assumes "accurate u ar" and "0 \<le> u" and "u \<le> 1 / 50"
    and "0 < voxelWorldSize env"
    and "0 < effectiveStep u (voxelConeStepSize env)"
  shows "roundedTrace ar (nat \<lceil>50 / effectiveStep u (voxelConeStepSize env)\<rceil>) env direction tanHalfAngle
           \<noteq> None"
proof -
  let ?e = "effectiveStep u (voxelConeStepSize env)"
  have "50 / ?e \<le> real (nat \<lceil>50 / ?e\<rceil>)" by linarith
  then have "50 / ?e * ?e \<le> real (nat \<lceil>50 / ?e\<rceil>) * ?e"
    using assms(5) by (intro mult_right_mono) simp_all
  then have "50 \<le> real (nat \<lceil>50 / ?e\<rceil>) * ?e" using assms(5) by simp
  moreover have "49 + 50 * u \<le> 50" using assms(3) by simp
  ultimately have "49 + 50 * u \<le> real (nat \<lceil>50 / ?e\<rceil>) * ?e" by linarith
  then show ?thesis by (rule roundedTrace_enough [OF assms(1-5)])
qed

theorem cone_march_iteration_bound_witness:
  "accurate (1 / 2 ^ 24) (absorbingArithmetic (1 / 2 ^ 24))
   \<and> 0 < effectiveStep (1 / 2 ^ 24) (voxelConeStepSize (uniformVolume (1 / 10) 0))
   \<and> roundedTrace (absorbingArithmetic (1 / 2 ^ 24)) 501 (uniformVolume (1 / 10) 0) (0, 1, 0) 0 \<noteq> None"
proof -
  have a: "accurate (1 / 2 ^ 24) (absorbingArithmetic (1 / 2 ^ 24))"
    by (rule accurate_absorbingArithmetic) simp
  have e: "0 < effectiveStep (1 / 2 ^ 24) (voxelConeStepSize (uniformVolume (1 / 10) 0))"
    by (simp add: effectiveStep_def uniformVolume_def)
  have v: "0 < voxelWorldSize (uniformVolume (1 / 10) 0)" by (simp add: uniformVolume_def)
  have n: "nat \<lceil>50 / effectiveStep (1 / 2 ^ 24) (voxelConeStepSize (uniformVolume (1 / 10) 0))\<rceil> = 501"
    by (simp add: effectiveStep_def uniformVolume_def)
  have "roundedTrace (absorbingArithmetic (1 / 2 ^ 24)) 501 (uniformVolume (1 / 10) 0) (0, 1, 0) 0 \<noteq> None"
    using cone_march_iteration_bound [OF a _ _ v e, of "(0, 1, 0)" 0] unfolding n by simp
  with a e show ?thesis by blast
qed

lemma absorbing_stall:
  assumes "dist' s = 1" and "alpha s = 0"
  shows "roundedLoop (absorbingArithmetic (1 / 2 ^ 24)) n (uniformVolume (1 / 2 ^ 30) 0) direction 0 sp 50 s
         = None"
  using assms
proof (induction n arbitrary: s)
  case 0
  then show ?case by simp
next
  case (Suc n)
  let ?s1 = "roundedStep (absorbingArithmetic (1 / 2 ^ 24)) (uniformVolume (1 / 2 ^ 30) 0) direction 0 sp s"
  have d: "dist' ?s1 = 1"
    using Suc.prems
    by (simp add: roundedStep_def Let_def absorbingArithmetic_def uniformVolume_def)
  have a: "alpha ?s1 = 0"
    using Suc.prems
    by (simp add: roundedStep_def Let_def absorbingArithmetic_def uniformVolume_def vec4_a_def)
  have "roundedLoop (absorbingArithmetic (1 / 2 ^ 24)) n (uniformVolume (1 / 2 ^ 30) 0) direction 0 sp 50 ?s1
        = None"
    by (rule Suc.IH [OF d a])
  then show ?case using Suc.prems a by (simp add: Let_def)
qed

text \<open>
  The bound \<open>50 / voxelConeStepSize\<close> itself fails in both directions.  With the step size
  100 the loop runs one body, and \<open>50 / 100\<close> is less than 1.  With the step size
  \<open>1 / 2 ^ 30\<close> and an empty volume the rounded sum \<open>dist + diameter * voxelConeStepSize\<close>
  is \<open>dist\<close> again, and the loop never ends.
\<close>

theorem cone_march_iteration_bound_counterexample:
  "0 < voxelConeStepSize (uniformVolume 100 0) \<and> 0 < voxelWorldSize (uniformVolume 100 0)
   \<and> roundedTrace (absorbingArithmetic (1 / 2 ^ 24)) 0 (uniformVolume 100 0) (0, 1, 0) 0 = None
   \<and> \<not> (\<exists>n. real n \<le> 50 / voxelConeStepSize (uniformVolume 100 0)
            \<and> roundedTrace (absorbingArithmetic (1 / 2 ^ 24)) n (uniformVolume 100 0) (0, 1, 0) 0 \<noteq> None)
   \<and> 0 < voxelConeStepSize (uniformVolume (1 / 2 ^ 30) 0)
   \<and> 0 < voxelWorldSize (uniformVolume (1 / 2 ^ 30) 0)
   \<and> (\<forall>n. roundedTrace (absorbingArithmetic (1 / 2 ^ 24)) n (uniformVolume (1 / 2 ^ 30) 0) (0, 1, 0) 0
          = None)"
proof -
  let ?ar = "absorbingArithmetic (1 / 2 ^ 24)"
  have 0: "roundedTrace ?ar 0 (uniformVolume 100 0) (0, 1, 0) 0 = None"
    unfolding roundedTrace_None coneInit_uniformVolume
    by (simp add: absorbingArithmetic_def uniformVolume_def)
  have 1: "\<not> (\<exists>n. real n \<le> 50 / voxelConeStepSize (uniformVolume 100 0)
            \<and> roundedTrace ?ar n (uniformVolume 100 0) (0, 1, 0) 0 \<noteq> None)"
  proof
    assume "\<exists>n. real n \<le> 50 / voxelConeStepSize (uniformVolume 100 0)
            \<and> roundedTrace ?ar n (uniformVolume 100 0) (0, 1, 0) 0 \<noteq> None"
    then obtain n where a: "real n \<le> 50 / voxelConeStepSize (uniformVolume 100 0)"
      and b: "roundedTrace ?ar n (uniformVolume 100 0) (0, 1, 0) 0 \<noteq> None" by blast
    have "n = 0" using a by (cases n) (simp_all add: voxelConeStepSize_uniformVolume)
    then show False using b 0 by simp
  qed
  have 2: "\<forall>n. roundedTrace ?ar n (uniformVolume (1 / 2 ^ 30) 0) (0, 1, 0) 0 = None"
  proof
    fix n
    have m: "fmul ?ar 50 (voxelWorldSize (uniformVolume (1 / 2 ^ 30) 0)) = 50"
      by (simp add: absorbingArithmetic_def uniformVolume_def)
    show "roundedTrace ?ar n (uniformVolume (1 / 2 ^ 30) 0) (0, 1, 0) 0 = None"
      unfolding roundedTrace_None m
      by (rule absorbing_stall) (simp_all add: coneInit_uniformVolume)
  qed
  have 3: "0 < voxelConeStepSize (uniformVolume 100 0)" "0 < voxelWorldSize (uniformVolume 100 0)"
    "0 < voxelConeStepSize (uniformVolume (1 / 2 ^ 30) 0)"
    "0 < voxelWorldSize (uniformVolume (1 / 2 ^ 30) 0)"
    by (simp_all add: uniformVolume_def)
  show ?thesis by (intro conjI) (rule 0 1 2 3)+
qed

text \<open>
  Claim C5 (early termination on occlusion), as the code has it.  If the loop is still
  inside the distance limit at the head of each of its first \<open>k + 1\<close> bodies, and alpha
  is not above 0.95 after the first \<open>k\<close> of them but is above 0.95 after body
  \<open>k + 1\<close>, then the loop ends with the state that body \<open>k + 1\<close> leaves, however many
  more bodies would be allowed and whatever distance is left.
\<close>

theorem early_termination_above_threshold:
  assumes "\<forall>j<Suc k. dist' ((coneStep env direction t sp ^^ j) s) < 50 * voxelWorldSize env"
    and "\<forall>j<k. \<not> alpha ((coneStep env direction t sp ^^ Suc j) s) > 0.95"
    and "alpha ((coneStep env direction t sp ^^ Suc k) s) > 0.95"
  shows "coneLoop (Suc k + m) env direction t sp s = Some ((coneStep env direction t sp ^^ Suc k) s)"
  using assms
proof (induction k arbitrary: s)
  case 0
  then show ?case by (simp add: Let_def)
next
  case (Suc k)
  let ?f = "coneStep env direction t sp"
  have d0: "dist' s < 50 * voxelWorldSize env" using Suc.prems(1) by fastforce
  have a1: "\<not> alpha (?f s) > 0.95" using Suc.prems(2) by fastforce
  have sw: "(?f ^^ j) (?f s) = (?f ^^ Suc j) s" for j by (simp add: funpow_swap1)
  have p1: "\<forall>j<Suc k. dist' ((?f ^^ j) (?f s)) < 50 * voxelWorldSize env"
    unfolding sw using Suc.prems(1) by auto
  have p2: "\<forall>j<k. \<not> alpha ((?f ^^ Suc j) (?f s)) > 0.95"
    unfolding sw using Suc.prems(2) by auto
  have p3: "alpha ((?f ^^ Suc k) (?f s)) > 0.95"
    unfolding sw using Suc.prems(3) by simp
  have "coneLoop (Suc k + m) env direction t sp (?f s) = Some ((?f ^^ Suc k) (?f s))"
    by (rule Suc.IH [OF p1 p2 p3])
  then have "coneLoop (Suc (Suc k) + m) env direction t sp s = Some ((?f ^^ Suc k) (?f s))"
    using d0 a1 by (simp add: Let_def)
  then show ?case unfolding sw .
qed

lemma run_070:
  fixes sp :: vec3
  defines "f \<equiv> coneStep (uniformVolume 1 0.7) (0, 1, 0) 0 sp"
  shows "f (coneInit (uniformVolume 1 0.7)) = \<lparr> color = (2, 2, 2), alpha = 0.7, occlusion = 0.7, dist' = 2 \<rparr>"
    and "f \<lparr> color = (2, 2, 2), alpha = 0.7, occlusion = 0.7, dist' = 2 \<rparr> =
           \<lparr> color = (3.3, 3.3, 3.3), alpha = 0.91, occlusion = 0.91, dist' = 3 \<rparr>"
    and "f \<lparr> color = (3.3, 3.3, 3.3), alpha = 0.91, occlusion = 0.91, dist' = 3 \<rparr> =
           \<lparr> color = (4.39, 4.39, 4.39), alpha = 0.973, occlusion = 0.973, dist' = 4 \<rparr>"
  unfolding f_def coneStep_uniformVolume coneInit_uniformVolume
  by (simp_all add: vadd_def smul_def)

theorem early_termination_above_threshold_witness:
  "coneLoop 50 (uniformVolume 1 0.7) (0, 1, 0) 0 (0, 1, 0) (coneInit (uniformVolume 1 0.7)) =
     Some \<lparr> color = (4.39, 4.39, 4.39), alpha = 0.973, occlusion = 0.973, dist' = 4 \<rparr>"
proof -
  let ?env = "uniformVolume 1 0.7"
  let ?f = "coneStep ?env (0, 1, 0) 0 (0, 1, 0)"
  let ?s = "coneInit ?env"
  note r = run_070 [of "(0, 1, 0)"]
  have f1: "(?f ^^ Suc 0) ?s = \<lparr> color = (2, 2, 2), alpha = 0.7, occlusion = 0.7, dist' = 2 \<rparr>"
    by (simp only: funpow.simps comp_apply id_apply r)
  have f2: "(?f ^^ Suc (Suc 0)) ?s = \<lparr> color = (3.3, 3.3, 3.3), alpha = 0.91, occlusion = 0.91, dist' = 3 \<rparr>"
    by (simp only: funpow.simps comp_apply id_apply r)
  have f3: "(?f ^^ Suc (Suc (Suc 0))) ?s =
      \<lparr> color = (4.39, 4.39, 4.39), alpha = 0.973, occlusion = 0.973, dist' = 4 \<rparr>"
    by (simp only: funpow.simps comp_apply id_apply r)
  have f0: "(?f ^^ 0) ?s = \<lparr> color = (0, 0, 0), alpha = 0, occlusion = 0, dist' = 1 \<rparr>"
    by (simp only: funpow.simps id_apply coneInit_uniformVolume)
  have p1: "\<forall>j<Suc (Suc (Suc 0)). dist' ((?f ^^ j) ?s) < 50 * voxelWorldSize ?env"
  proof (intro allI impI)
    fix j :: nat assume "j < Suc (Suc (Suc 0))"
    then consider "j = 0" | "j = Suc 0" | "j = Suc (Suc 0)" by linarith
    then show "dist' ((?f ^^ j) ?s) < 50 * voxelWorldSize ?env"
      by cases (simp_all only: f0 f1 f2 voxelWorldSize_uniformVolume, simp_all)
  qed
  have p2: "\<forall>j<Suc (Suc 0). \<not> alpha ((?f ^^ Suc j) ?s) > 0.95"
  proof (intro allI impI)
    fix j :: nat assume "j < Suc (Suc 0)"
    then consider "j = 0" | "j = Suc 0" by linarith
    then show "\<not> alpha ((?f ^^ Suc j) ?s) > 0.95"
      by cases (simp_all only: f1 f2, simp_all)
  qed
  have p3: "alpha ((?f ^^ Suc (Suc (Suc 0))) ?s) > 0.95"
    by (simp only: f3) simp
  have "coneLoop (Suc (Suc (Suc 0)) + 47) ?env (0, 1, 0) 0 (0, 1, 0) ?s = Some ((?f ^^ Suc (Suc (Suc 0))) ?s)"
    by (rule early_termination_above_threshold [OF p1 p2 p3])
  then show ?thesis by (simp only: f3) simp
qed

text \<open>
  An alpha of exactly 0.95 does not end the loop, the test being \<open>alpha > 0.95\<close>: on a
  volume of alpha 0.95 the first body leaves alpha at 0.95 and a second body runs.
\<close>

theorem early_termination_at_threshold_counterexample:
  "alpha (coneStep (uniformVolume 1 0.95) (0, 1, 0) 0 (0, 1, 0) (coneInit (uniformVolume 1 0.95))) = 0.95
   \<and> coneLoop (Suc 0) (uniformVolume 1 0.95) (0, 1, 0) 0 (0, 1, 0) (coneInit (uniformVolume 1 0.95)) = None
   \<and> coneLoop (Suc (Suc 0)) (uniformVolume 1 0.95) (0, 1, 0) 0 (0, 1, 0) (coneInit (uniformVolume 1 0.95)) =
       Some \<lparr> color = (3.05, 3.05, 3.05), alpha = 0.9975, occlusion = 0.9975, dist' = 3 \<rparr>"
proof -
  let ?env = "uniformVolume 1 0.95"
  let ?f = "coneStep ?env (0, 1, 0) 0 (0, 1, 0)"
  have s1: "?f (coneInit ?env) = \<lparr> color = (2, 2, 2), alpha = 0.95, occlusion = 0.95, dist' = 2 \<rparr>"
    unfolding coneStep_uniformVolume coneInit_uniformVolume by (simp add: vadd_def smul_def)
  have s2: "?f \<lparr> color = (2, 2, 2), alpha = 0.95, occlusion = 0.95, dist' = 2 \<rparr> =
      \<lparr> color = (3.05, 3.05, 3.05), alpha = 0.9975, occlusion = 0.9975, dist' = 3 \<rparr>"
    unfolding coneStep_uniformVolume by (simp add: vadd_def smul_def)
  have a: "alpha (?f (coneInit ?env)) = 0.95" by (simp only: s1) simp
  have b: "coneLoop (Suc 0) ?env (0, 1, 0) 0 (0, 1, 0) (coneInit ?env) = None"
    unfolding coneLoop.simps s1 Let_def
    by (simp add: coneInit_uniformVolume voxelWorldSize_uniformVolume)
  have c: "coneLoop (Suc (Suc 0)) ?env (0, 1, 0) 0 (0, 1, 0) (coneInit ?env) =
       Some \<lparr> color = (3.05, 3.05, 3.05), alpha = 0.9975, occlusion = 0.9975, dist' = 3 \<rparr>"
    unfolding coneLoop.simps s1 s2 Let_def
    by (simp add: coneInit_uniformVolume voxelWorldSize_uniformVolume)
  show ?thesis by (intro conjI) (rule a b c)+
qed

end
